theory Spec2Isabelle
  imports Complex_Main "HOL-Library.Word" "HOL-Library.Sublist"
begin

section \<open>Integers, time and the occupancy grid\<close>

text \<open>
  Go's \<^verbatim>\<open>int\<close> is a 64-bit word on the build targets of the repository (amd64, arm64),
  \<^verbatim>\<open>int8\<close> an 8-bit word.
\<close>

type_synonym go_int = "64 word"
type_synonym go_int8 = "8 word"

text \<open>
  A \<^verbatim>\<open>float64\<close> field of an inbound message (a grid, a transform) comes out of
  \<^verbatim>\<open>encoding/json\<close>, which yields neither NaN nor an infinity, and is only copied: it is
  the \<^typ>\<open>real\<close> it denotes. A \<^verbatim>\<open>float64\<close> of a velocity command is computed:
  \<^verbatim>\<open>Robot.SetVelocity\<close> multiplies the joystick reading by a ratio that \<^verbatim>\<open>UpdateSettings\<close>
  reads with \<^verbatim>\<open>strconv.ParseFloat\<close>, which accepts \<^verbatim>\<open>NaN\<close> and \<^verbatim>\<open>Inf\<close>. Such a value is a
  finite number, an infinity or NaN, and Go's \<^verbatim>\<open>==\<close> on it is false as soon as one side is
  NaN. The two zeros, which \<^verbatim>\<open>==\<close> identifies, are both \<open>Finite 0\<close>.
\<close>

datatype float64 = Finite (the_real: real) | PosInf | NegInf | NaN

definition float_eq :: "float64 \<Rightarrow> float64 \<Rightarrow> bool" where
  "float_eq a b \<longleftrightarrow> a \<noteq> NaN \<and> b \<noteq> NaN \<and> a = b"

fun finite64 :: "float64 \<Rightarrow> bool" where
  "finite64 (Finite x) = True"
| "finite64 PosInf = False"
| "finite64 NegInf = False"
| "finite64 NaN = False"

text \<open>
  \<^verbatim>\<open>time.Time\<close> is an instant in nanoseconds on one time line whose origin is Go's zero
  \<^verbatim>\<open>Time\<close>; \<^verbatim>\<open>Time.Sub\<close> saturates at the ends of the 64-bit \<^verbatim>\<open>Duration\<close>.
\<close>

type_synonym go_time = int

definition maxDuration :: int where
  "maxDuration = 2 ^ 63 - 1"

definition minDuration :: int where
  "minDuration = - (2 ^ 63)"

definition time_Sub :: "go_time \<Rightarrow> go_time \<Rightarrow> int" where
  "time_Sub t u = max minDuration (min maxDuration (t - u))"


definition Second :: int where
  "Second = 1000000000"

subsection \<open>types.go: the occupancy grid\<close>

text \<open>\<^verbatim>\<open>MapData\<close>, the grid as the robot layer caches it.\<close>

record MapData =
  Width :: go_int
  Height :: go_int
  Resolution :: real
  OriginX :: real
  OriginY :: real
  Data :: "go_int8 list"

text \<open>
  The anonymous struct \<^verbatim>\<open>grid\<close> that \<^verbatim>\<open>parseMap\<close> decodes the publish frame's
  \<^verbatim>\<open>msg\<close> into: \<^verbatim>\<open>info.width\<close>, \<^verbatim>\<open>info.height\<close>, \<^verbatim>\<open>info.resolution\<close>,
  \<^verbatim>\<open>info.origin.position.x/y\<close> and \<^verbatim>\<open>data\<close>, a slice of Go \<^verbatim>\<open>int\<close>.
\<close>

record OccupancyGridMsg =
  info_width :: go_int
  info_height :: go_int
  info_resolution :: real
  info_origin_x :: real
  info_origin_y :: real
  grid_data :: "go_int list"

text \<open>The conversion \<^verbatim>\<open>int8(v)\<close> of a Go \<^verbatim>\<open>int\<close>: the low eight bits.\<close>

definition int8 :: "go_int \<Rightarrow> go_int8" where
  "int8 v = ucast v"

text \<open>
  One round of the loop of \<^verbatim>\<open>parseMap\<close>:
  \<^verbatim>\<open>if v > 127 { v -= 256 }; data[i] = int8(v)\<close>.
\<close>

definition cell :: "go_int \<Rightarrow> go_int8" where
  "cell v = int8 (if 127 <s v then v - 256 else v)"

text \<open>\<^verbatim>\<open>for i, v := range grid.Data\<close>, filling \<^verbatim>\<open>data\<close> from index 0 upwards.\<close>

primrec convert_cells :: "go_int list \<Rightarrow> go_int8 list" where
  "convert_cells [] = []"
| "convert_cells (v # vs) = cell v # convert_cells vs"

section \<open>The robot layer (package robot)\<close>

text \<open>
  \<^verbatim>\<open>Robot\<close>, with its identity and the map cache. The other sensor caches, the navigation
  points and the settings are written by callbacks of the same shape as \<^verbatim>\<open>OnMap\<close> and
  are read by nothing below; they are left out of the record.
\<close>

record Robot =
  ID :: string
  Namespace :: string
  Name :: string
  IP :: string
  Port :: int
  Connected :: bool
  Map :: MapData
  MapReceived :: bool
  lastMapTime :: go_time
  MapHz :: int

definition zero_MapData :: MapData where
  "zero_MapData = \<lparr>Width = 0, Height = 0, Resolution = 0, OriginX = 0, OriginY = 0, Data = []\<rparr>"

text \<open>\<^verbatim>\<open>NewRobot\<close>: every field it does not name has Go's zero value.\<close>

definition NewRobot :: "string \<Rightarrow> string \<Rightarrow> string \<Rightarrow> string \<Rightarrow> int \<Rightarrow> Robot" where
  "NewRobot rid nsp name ip prt =
     \<lparr>ID = rid, Namespace = nsp, Name = name, IP = ip, Port = prt, Connected = False,
      Map = zero_MapData, MapReceived = False, lastMapTime = 0, MapHz = 0\<rparr>"

text \<open>
  \<^verbatim>\<open>Robot.measureHz(last)\<close> at clock reading \<open>now\<close>: the new value of \<^verbatim>\<open>*last\<close> and the
  rate returned. \<^verbatim>\<open>time.Second / elapsed\<close> divides two positive 64-bit durations.
\<close>

definition measureHz :: "go_time \<Rightarrow> go_time \<Rightarrow> go_time \<times> int" where
  "measureHz now prev =
     (if prev = 0 then (now, 0)
      else let elapsed = time_Sub now prev
           in (now, if elapsed > 0 then Second div elapsed else 0))"

text \<open>The callback \<^verbatim>\<open>client.OnMap\<close> that \<^verbatim>\<open>NewRobot\<close> installs, run at clock reading \<open>now\<close>.\<close>

definition robot_OnMap :: "go_time \<Rightarrow> Robot \<Rightarrow> MapData \<Rightarrow> Robot" where
  "robot_OnMap now r m =
     (let (prev', hz) = measureHz now (lastMapTime r)
      in r\<lparr>Map := m, MapReceived := True, lastMapTime := prev', MapHz := hz\<rparr>)"

text \<open>\<^verbatim>\<open>Robot.GetSnapshot\<close>: a copy of the fields it lists; the others are zero.\<close>

definition GetSnapshot :: "Robot \<Rightarrow> Robot" where
  "GetSnapshot r =
     \<lparr>ID = ID r, Namespace = Namespace r, Name = Name r, IP = IP r, Port = Port r,
      Connected = Connected r, Map = zero_MapData, MapReceived = MapReceived r,
      lastMapTime = 0, MapHz = MapHz r\<rparr>"

subsection \<open>Errors and panics\<close>

text \<open>
  The errors the modelled functions return, and Go's run-time panics. \<open>Conflict ip prt\<close>
  is \<^verbatim>\<open>"robot at %s:%d already exists"\<close>, \<open>NotFound id\<close> is \<^verbatim>\<open>"robot %s not found"\<close>,
  \<open>NotConnected\<close> is \<^verbatim>\<open>"not connected"\<close>, \<open>WriteError\<close> is an error of the socket write,
  \<open>Timeout service\<close> is \<^verbatim>\<open>"service call %s timed out"\<close>, \<open>DialError\<close> is a failed dial.
\<close>

datatype error =
    Conflict string int
  | NotFound string
  | NotConnected
  | WriteError
  | Timeout string
  | Panic string
  | DialError

subsection \<open>Buffered channels\<close>

text \<open>
  A Go channel made by \<^verbatim>\<open>make(chan T, n)\<close>: the queued values, oldest first, the capacity
  and whether \<^verbatim>\<open>close\<close> has run on it.
\<close>

record 'a chan =
  chan_buf :: "'a list"
  chan_cap :: nat
  chan_closed :: bool

definition make_chan :: "nat \<Rightarrow> 'a chan" where
  "make_chan n = \<lparr>chan_buf = [], chan_cap = n, chan_closed = False\<rparr>"

text \<open>
  \<^verbatim>\<open>select { case ch <- msg: default: }\<close>: the send happens when the buffer has room,
  the default branch is taken when it is full, and a send on a closed channel panics.
\<close>

datatype 'a try_send_result = Sent "'a chan" | Dropped | SendOnClosed

definition try_send :: "'a chan \<Rightarrow> 'a \<Rightarrow> 'a try_send_result" where
  "try_send c x =
     (if chan_closed c then SendOnClosed
      else if length (chan_buf c) < chan_cap c then Sent (c\<lparr>chan_buf := chan_buf c @ [x]\<rparr>)
      else Dropped)"

subsection \<open>The manager: registry and broadcast hub\<close>

datatype payload = NoData | RobotData Robot | MapPayload MapData | OtherData

record BroadcastMsg =
  Type :: string
  RobotID :: string
  bData :: payload

text \<open>
  \<^verbatim>\<open>Manager\<close>. The Go maps \<^verbatim>\<open>robots\<close> and \<^verbatim>\<open>subscribers\<close> are a map and a set. The
  subscriber channels are references: \<open>chans\<close> is the store that holds the state of each
  channel ever made, and \<open>next_chan\<close> counts them, so that \<^verbatim>\<open>make\<close> returns a channel
  distinct from every earlier one.
\<close>

record Manager =
  robots :: "string \<rightharpoonup> Robot"
  currentID :: string
  nextID :: go_int
  subscribers :: "nat set"
  chans :: "nat \<Rightarrow> BroadcastMsg chan"
  next_chan :: nat

definition NewManager :: Manager where
  "NewManager =
     \<lparr>robots = Map.empty, currentID = [], nextID = 1, subscribers = {},
      chans = (\<lambda>_. make_chan 0), next_chan = 0\<rparr>"

text \<open>
  Go leaves the order in which \<^verbatim>\<open>range\<close> visits the keys of a map unspecified. A loop
  over a map takes that order as an argument: a list that holds every key once.
\<close>

definition range_order :: "'a set \<Rightarrow> 'a list \<Rightarrow> bool" where
  "range_order S ks \<longleftrightarrow> distinct ks \<and> set ks = S"

definition Subscribe :: "Manager \<Rightarrow> nat \<times> Manager" where
  "Subscribe m =
     (let ch = next_chan m
      in (ch, m\<lparr>chans := (chans m)(ch := make_chan 100), next_chan := Suc ch,
                subscribers := insert ch (subscribers m)\<rparr>))"

text \<open>\<^verbatim>\<open>Manager.Unsubscribe\<close>: \<^verbatim>\<open>delete\<close>, then \<^verbatim>\<open>close(ch)\<close>, which panics on a closed channel.\<close>

definition Unsubscribe :: "nat \<Rightarrow> Manager \<Rightarrow> error + Manager" where
  "Unsubscribe ch m =
     (let m1 = m\<lparr>subscribers := subscribers m - {ch}\<rparr>
      in if chan_closed (chans m1 ch) then Inl (Panic ''close of closed channel'')
         else Inr (m1\<lparr>chans := (chans m1)(ch := (chans m1 ch)\<lparr>chan_closed := True\<rparr>)\<rparr>))"

text \<open>The loop of \<^verbatim>\<open>Manager.Broadcast\<close> over the subscribers in the order \<open>cs\<close>.\<close>

fun Broadcast_range ::
  "nat list \<Rightarrow> BroadcastMsg \<Rightarrow> (nat \<Rightarrow> BroadcastMsg chan) \<Rightarrow> error + (nat \<Rightarrow> BroadcastMsg chan)"
where
  "Broadcast_range [] msg h = Inr h"
| "Broadcast_range (ch # cs) msg h =
     (case try_send (h ch) msg of
        SendOnClosed \<Rightarrow> Inl (Panic ''send on closed channel'')
      | Dropped \<Rightarrow> Broadcast_range cs msg h
      | Sent c' \<Rightarrow> Broadcast_range cs msg (h(ch := c')))"

definition Broadcast :: "nat list \<Rightarrow> BroadcastMsg \<Rightarrow> Manager \<Rightarrow> error + Manager" where
  "Broadcast cs msg m =
     (case Broadcast_range cs msg (chans m) of
        Inl e \<Rightarrow> Inl e
      | Inr h \<Rightarrow> Inr (m\<lparr>chans := h\<rparr>))"

text \<open>A subscriber takes the oldest message of its queue (\<^verbatim>\<open><-bcast\<close>).\<close>

definition chan_recv :: "nat \<Rightarrow> Manager \<Rightarrow> (BroadcastMsg \<times> Manager) option" where
  "chan_recv ch m =
     (case chan_buf (chans m ch) of
        [] \<Rightarrow> None
      | x # xs \<Rightarrow> Some (x, m\<lparr>chans := (chans m)(ch := (chans m ch)\<lparr>chan_buf := xs\<rparr>)\<rparr>))"

text \<open>\<^verbatim>\<open>fmt.Sprintf("%d", n)\<close>: the decimal digits, with a minus sign for a negative number.\<close>

definition digit_char :: "nat \<Rightarrow> char" where
  "digit_char d = ''0123456789'' ! d"

fun udec :: "nat \<Rightarrow> string" where
  "udec n = (if n < 10 then [digit_char n] else udec (n div 10) @ [digit_char (n mod 10)])"

declare udec.simps [simp del]

definition fmt_d :: "int \<Rightarrow> string" where
  "fmt_d i = (if i < 0 then CHR ''-'' # udec (nat (- i)) else udec (nat i))"

text \<open>
  The duplicate check of \<^verbatim>\<open>AddRobot\<close>, \<^verbatim>\<open>for _, r := range m.robots\<close> in the order \<open>ks\<close>:
  true when the loop returns the conflict error.
\<close>

fun duplicate_range :: "string list \<Rightarrow> (string \<rightharpoonup> Robot) \<Rightarrow> string \<Rightarrow> int \<Rightarrow> bool" where
  "duplicate_range [] rs ip prt = False"
| "duplicate_range (k # ks) rs ip prt =
     (case rs k of
        None \<Rightarrow> duplicate_range ks rs ip prt
      | Some r \<Rightarrow> if IP r = ip \<and> Port r = prt then True else duplicate_range ks rs ip prt)"

text \<open>
  \<^verbatim>\<open>Manager.AddRobot\<close>, with the range orders \<open>ks\<close> of \<^verbatim>\<open>m.robots\<close> and \<open>cs\<close> of
  \<^verbatim>\<open>m.subscribers\<close>. It returns the manager as the call leaves it and the call's result.
  The callbacks it wires into the new robot's client run later, on inbound frames; they
  are not part of the call.
\<close>

definition AddRobot ::
  "string list \<Rightarrow> nat list \<Rightarrow> string \<Rightarrow> string \<Rightarrow> string \<Rightarrow> int \<Rightarrow> Manager
    \<Rightarrow> Manager \<times> (error + Robot)"
where
  "AddRobot ks cs nsp name ip prt m =
     (if duplicate_range ks (robots m) ip prt then (m, Inl (Conflict ip prt))
      else
        let rid = fmt_d (sint (nextID m));
            m1 = m\<lparr>nextID := nextID m + 1\<rparr>;
            r = NewRobot rid nsp name ip prt;
            m2 = m1\<lparr>robots := (robots m1)(rid \<mapsto> r)\<rparr>;
            m3 = (if currentID m2 = [] then m2\<lparr>currentID := rid\<rparr> else m2)
        in case Broadcast cs \<lparr>Type = ''robot_added'', RobotID = rid,
                                bData = RobotData (GetSnapshot r)\<rparr> m3 of
             Inl e \<Rightarrow> (m3, Inl e)
           | Inr m4 \<Rightarrow> (m4, Inr r))"

text \<open>
  \<^verbatim>\<open>for k := range m.robots { m.currentID = k; break }\<close>: the first key of the range
  order, if there is one.
\<close>

definition first_of_range :: "string list \<Rightarrow> Manager \<Rightarrow> Manager" where
  "first_of_range ks m = (case ks of [] \<Rightarrow> m | k # _ \<Rightarrow> m\<lparr>currentID := k\<rparr>)"

text \<open>
  \<^verbatim>\<open>Manager.RemoveRobot\<close>; \<open>ks\<close> is the range order of \<^verbatim>\<open>m.robots\<close> after the
  \<^verbatim>\<open>delete\<close>. \<^verbatim>\<open>r.StopConnection()\<close> acts on the robot's client, an object the registry
  then drops; it changes no field of the manager.
\<close>

definition RemoveRobot ::
  "string list \<Rightarrow> nat list \<Rightarrow> string \<Rightarrow> Manager \<Rightarrow> Manager \<times> (error + unit)"
where
  "RemoveRobot ks cs rid m =
     (case robots m rid of
        None \<Rightarrow> (m, Inl (NotFound rid))
      | Some r \<Rightarrow>
          let m1 = m\<lparr>robots := (robots m)(rid := None)\<rparr>;
              m2 = (if currentID m1 = rid then first_of_range ks (m1\<lparr>currentID := []\<rparr>)
                    else m1)
          in case Broadcast cs \<lparr>Type = ''robot_removed'', RobotID = rid, bData = NoData\<rparr> m2 of
               Inl e \<Rightarrow> (m2, Inl e)
             | Inr m3 \<Rightarrow> (m3, Inr ()))"

definition SwitchRobot :: "nat list \<Rightarrow> string \<Rightarrow> Manager \<Rightarrow> Manager \<times> (error + unit)" where
  "SwitchRobot cs rid m =
     (case robots m rid of
        None \<Rightarrow> (m, Inl (NotFound rid))
      | Some r \<Rightarrow>
          let m1 = m\<lparr>currentID := rid\<rparr>
          in case Broadcast cs \<lparr>Type = ''robot_switched'', RobotID = rid, bData = NoData\<rparr> m1 of
               Inl e \<Rightarrow> (m1, Inl e)
             | Inr m2 \<Rightarrow> (m2, Inr ()))"

definition GetCurrentRobot :: "Manager \<Rightarrow> Robot option" where
  "GetCurrentRobot m = (if currentID m = [] then None else robots m (currentID m))"

text \<open>
  The states of a manager: \<^verbatim>\<open>NewManager\<close>, then any sequence of calls of its methods
  and of receives on subscriber queues, each \<^verbatim>\<open>range\<close> in some order of the map it visits.
\<close>

inductive reachable :: "Manager \<Rightarrow> bool" where
  init: "reachable NewManager"
| subscribe: "reachable m \<Longrightarrow> Subscribe m = (ch, m') \<Longrightarrow> reachable m'"
| unsubscribe: "reachable m \<Longrightarrow> Unsubscribe ch m = Inr m' \<Longrightarrow> reachable m'"
| broadcast:
    "reachable m \<Longrightarrow> range_order (subscribers m) cs \<Longrightarrow> Broadcast cs msg m = Inr m'
      \<Longrightarrow> reachable m'"
| receive: "reachable m \<Longrightarrow> chan_recv ch m = Some (x, m') \<Longrightarrow> reachable m'"
| add:
    "reachable m \<Longrightarrow> range_order (dom (robots m)) ks \<Longrightarrow> range_order (subscribers m) cs
      \<Longrightarrow> AddRobot ks cs nsp name ip prt m = (m', res) \<Longrightarrow> reachable m'"
| remove:
    "reachable m \<Longrightarrow> range_order (dom (robots m) - {rid}) ks
      \<Longrightarrow> range_order (subscribers m) cs
      \<Longrightarrow> RemoveRobot ks cs rid m = (m', res) \<Longrightarrow> reachable m'"
| switch:
    "reachable m \<Longrightarrow> range_order (subscribers m) cs
      \<Longrightarrow> SwitchRobot cs rid m = (m', res) \<Longrightarrow> reachable m'"

text \<open>Sequencing of calls that may fail: the first error ends the sequence.\<close>

definition and_then :: "error + 'a \<Rightarrow> ('a \<Rightarrow> error + 'b) \<Rightarrow> error + 'b" where
  "and_then r f = (case r of Inl e \<Rightarrow> Inl e | Inr x \<Rightarrow> f x)"

text \<open>What a queue holds after a \<^verbatim>\<open>Broadcast\<close> of \<open>msg\<close> that visits it.\<close>

definition deliver :: "BroadcastMsg \<Rightarrow> BroadcastMsg chan \<Rightarrow> BroadcastMsg chan" where
  "deliver msg c =
     (if length (chan_buf c) < chan_cap c then c\<lparr>chan_buf := chan_buf c @ [msg]\<rparr> else c)"

text \<open>
  The invariant of the reachable managers: a registered queue is open, the empty string is
  no robot id, and the selection is empty exactly when the registry is, and otherwise
  names a registered robot.
\<close>

definition manager_inv :: "Manager \<Rightarrow> bool" where
  "manager_inv m \<longleftrightarrow>
     (\<forall>ch \<in> subscribers m. \<not> chan_closed (chans m ch))
     \<and> [] \<notin> dom (robots m)
     \<and> (currentID m = [] \<longleftrightarrow> robots m = Map.empty)
     \<and> (currentID m \<noteq> [] \<longrightarrow> currentID m \<in> dom (robots m))"

text \<open>A registry with two robots, the first of them selected.\<close>

definition two_robots :: Manager where
  "two_robots =
     fst (AddRobot [''1''] [] ''/r2'' ''second'' ''10.0.0.2'' 9090
       (fst (AddRobot [] [] ''/r1'' ''first'' ''10.0.0.1'' 9090 NewManager)))"

section \<open>The browser connection (handlers/ws_handler.go)\<close>

text \<open>
  Two goroutines of one \<^verbatim>\<open>WSHandler\<close> activation write to the browser socket: the writer
  goroutine, which forwards the broadcast queue, and the reader loop, whose
  \<^verbatim>\<open>handleWSCommand\<close> writes the replies to \<^verbatim>\<open>request_map\<close> and \<^verbatim>\<open>request_status\<close>.
\<close>

datatype writer = Pump | Handler

text \<open>
  The state of one \<^verbatim>\<open>WSHandler\<close> activation: its queue \<^verbatim>\<open>bcast\<close>, whether the channel
  \<^verbatim>\<open>done\<close> is closed, whether \<^verbatim>\<open>closeOnce\<close> has fired, whether the socket is closed, the
  variable \<^verbatim>\<open>lastMapSend\<close>, and the frames written to the browser socket, oldest first,
  each with the clock reading at which it was written and the goroutine that wrote it.
\<close>

record WSConn =
  bcast :: nat
  done_closed :: bool
  closeOnce_done :: bool
  conn_closed :: bool
  lastMapSend :: go_time
  written :: "(go_time \<times> writer \<times> BroadcastMsg) list"

text \<open>
  The closure \<^verbatim>\<open>cleanup\<close>: \<^verbatim>\<open>closeOnce.Do\<close> runs its body on the first call only; the body
  closes \<^verbatim>\<open>done\<close>, unsubscribes the queue and closes the socket.
\<close>

definition cleanup :: "WSConn \<Rightarrow> Manager \<Rightarrow> error + (WSConn \<times> Manager)" where
  "cleanup w m =
     (if closeOnce_done w then Inr (w, m)
      else
        let w1 = w\<lparr>closeOnce_done := True\<rparr>
        in if done_closed w1 then Inl (Panic ''close of closed channel'')
           else
             let w2 = w1\<lparr>done_closed := True\<rparr>
             in case Unsubscribe (bcast w2) m of
                  Inl e \<Rightarrow> Inl e
                | Inr m' \<Rightarrow> Inr (w2\<lparr>conn_closed := True\<rparr>, m'))"

















section \<open>The rosbridge link (package rosbridge, the client)\<close>

subsection \<open>types.go: vectors, twists and transforms\<close>

text \<open>
  \<^verbatim>\<open>Vector3\<close> and \<^verbatim>\<open>Quaternion\<close>; the fields \<^verbatim>\<open>X\<close>, \<^verbatim>\<open>Y\<close>, \<^verbatim>\<open>Z\<close>, \<^verbatim>\<open>W\<close> carry a prefix,
  since the two records share them.
\<close>

record Vector3 =
  v3_X :: real
  v3_Y :: real
  v3_Z :: real

record Quaternion =
  q_X :: real
  q_Y :: real
  q_Z :: real
  q_W :: real

record TwistData =
  LinearX :: float64
  LinearY :: float64
  LinearZ :: float64
  AngularX :: float64
  AngularY :: float64
  AngularZ :: float64

text \<open>
  \<^verbatim>\<open>TransformStamped\<close>, the type of the cache \<^verbatim>\<open>globalMapOdom\<close>: the frame ids of
  \<^verbatim>\<open>Header\<close> and \<^verbatim>\<open>ChildFrameID\<close>, and \<^verbatim>\<open>Transform.Translation\<close> and \<^verbatim>\<open>Transform.Rotation\<close>.
\<close>

record TransformStamped =
  ts_frame_id :: string
  ts_child_frame_id :: string
  ts_translation :: Vector3
  ts_rotation :: Quaternion

text \<open>\<^verbatim>\<open>TFData\<close>, the composite pose event.\<close>

record TFData =
  MapOdomTx :: real
  MapOdomTy :: real
  MapOdomTz :: real
  MapOdomRx :: real
  MapOdomRy :: real
  MapOdomRz :: real
  MapOdomRw :: real
  BfpTx :: real
  BfpTy :: real
  BfpTz :: real
  BfpRx :: real
  BfpRy :: real
  BfpRz :: real
  BfpRw :: real
  BfpYaw :: real

text \<open>
  One element of \<^verbatim>\<open>transforms\<close> in the struct \<^verbatim>\<open>parseTF\<close> decodes a TF frame into:
  \<^verbatim>\<open>header.frame_id\<close>, \<^verbatim>\<open>child_frame_id\<close>, \<^verbatim>\<open>transform.translation\<close>, \<^verbatim>\<open>transform.rotation\<close>.
\<close>

record TFTransform =
  header_frame_id :: string
  child_frame_id :: string
  transform_translation :: Vector3
  transform_rotation :: Quaternion

text \<open>Go's zero values.\<close>

definition zero_Vector3 :: Vector3 where
  "zero_Vector3 = \<lparr>v3_X = 0, v3_Y = 0, v3_Z = 0\<rparr>"

definition zero_Quaternion :: Quaternion where
  "zero_Quaternion = \<lparr>q_X = 0, q_Y = 0, q_Z = 0, q_W = 0\<rparr>"

definition zero_TwistData :: TwistData where
  "zero_TwistData =
     \<lparr>LinearX = Finite 0, LinearY = Finite 0, LinearZ = Finite 0, AngularX = Finite 0,
      AngularY = Finite 0, AngularZ = Finite 0\<rparr>"

definition zero_TransformStamped :: TransformStamped where
  "zero_TransformStamped =
     \<lparr>ts_frame_id = [], ts_child_frame_id = [], ts_translation = zero_Vector3,
      ts_rotation = zero_Quaternion\<rparr>"

definition zero_TFData :: TFData where
  "zero_TFData =
     \<lparr>MapOdomTx = 0, MapOdomTy = 0, MapOdomTz = 0, MapOdomRx = 0, MapOdomRy = 0,
      MapOdomRz = 0, MapOdomRw = 0, BfpTx = 0, BfpTy = 0, BfpTz = 0, BfpRx = 0, BfpRy = 0,
      BfpRz = 0, BfpRw = 0, BfpYaw = 0\<rparr>"

subsection \<open>protocol.go: outbound frames\<close>

text \<open>
  JSON text (\<^verbatim>\<open>json.RawMessage\<close>, and the \<^verbatim>\<open>args\<close> of a service call once marshalled) is
  a string. An outbound frame is named after the helper that builds it: \<^verbatim>\<open>SubscribeMsg(topic, type)\<close>,
  \<^verbatim>\<open>UnsubscribeMsg(topic)\<close>, \<^verbatim>\<open>PublishMsg(topic, msg)\<close> with the \<^verbatim>\<open>linear\<close> and \<^verbatim>\<open>angular\<close>
  vectors of a twist message, and \<^verbatim>\<open>CallServiceMsg(service, args, id)\<close>. Each helper drops
  the error of \<^verbatim>\<open>json.Marshal\<close> and returns its byte slice, which is nil when marshalling
  fails (a NaN or an infinity in the message): \<open>NilFrame\<close>, which \<^verbatim>\<open>send\<close> writes to the
  socket like any other frame.
\<close>

type_synonym json = string

datatype frame =
    SubscribeMsg string string
  | UnsubscribeMsg string
  | PublishMsg string Vector3 Vector3
  | CallServiceMsg string json string
  | NilFrame

subsection \<open>The client\<close>

text \<open>
  \<^verbatim>\<open>Client\<close>. \<^verbatim>\<open>conn\<close> is \<open>None\<close> for a nil socket and otherwise holds the frames written to
  the socket, oldest first. A callback field is \<open>True\<close> when the callback is set; the value a
  parser calls it with is the parser's result. \<^verbatim>\<open>svcPending\<close> maps a correlation id to its
  response channel, a reference into a store of channels. The fields for the reconnect
  logic, the ticker and the other topics and callbacks are left out: nothing below reads
  them.
\<close>

record Client =
  ns :: string
  host :: string
  port :: int
  conn :: "frame list option"
  connected :: bool
  topicMap :: string
  topicCmdVel :: string
  topicTF :: string
  cmdVelEnabled :: bool
  desiredTwist :: TwistData
  lastTwist :: TwistData
  globalMapOdom :: TransformStamped
  OnMap :: bool
  OnTF :: bool
  svcPending :: "string \<rightharpoonup> nat"

definition NewClient :: "string \<Rightarrow> string \<Rightarrow> int \<Rightarrow> Client" where
  "NewClient nsp hst prt =
     \<lparr>ns = nsp, host = hst, port = prt, conn = None, connected = False, topicMap = [],
      topicCmdVel = [], topicTF = [], cmdVelEnabled = False, desiredTwist = zero_TwistData,
      lastTwist = zero_TwistData, globalMapOdom = zero_TransformStamped, OnMap = False,
      OnTF = False, svcPending = Map.empty\<rparr>"

text \<open>
  \<^verbatim>\<open>Client.Connect\<close>, with the outcome of the dial as an argument, and \<^verbatim>\<open>Client.disconnect\<close>:
  their effect on \<^verbatim>\<open>conn\<close> and \<^verbatim>\<open>connected\<close>. The goroutines and the callbacks they start run
  later.
\<close>

definition Connect :: "bool \<Rightarrow> Client \<Rightarrow> Client \<times> (error + unit)" where
  "Connect dial_ok c =
     (if connected c then (c, Inr ())
      else if \<not> dial_ok then (c, Inl DialError)
      else (c\<lparr>conn := Some [], connected := True\<rparr>, Inr ()))"

definition disconnect :: "Client \<Rightarrow> Client" where
  "disconnect c = (if \<not> connected c then c else c\<lparr>connected := False\<rparr>)"

text \<open>
  \<^verbatim>\<open>Client.send\<close>; \<open>wr\<close> says whether \<^verbatim>\<open>conn.WriteMessage\<close> succeeds. It returns the client and
  the error or \<^verbatim>\<open>nil\<close>.
\<close>

definition send :: "frame \<Rightarrow> bool \<Rightarrow> Client \<Rightarrow> Client \<times> (error + unit)" where
  "send data wr c =
     (if \<not> connected c then (c, Inl NotConnected)
      else case conn c of
        None \<Rightarrow> (c, Inl NotConnected)
      | Some fs \<Rightarrow> if wr then (c\<lparr>conn := Some (fs @ [data])\<rparr>, Inr ()) else (c, Inl WriteError))"

definition SubscribeCmdVel :: "string \<Rightarrow> bool \<Rightarrow> Client \<Rightarrow> Client" where
  "SubscribeCmdVel topic wr c =
     (let topic' = (if topic = [] then ''/diff_controller/cmd_vel_unstamped'' else topic);
          c1 = c\<lparr>topicCmdVel := ns c @ topic'\<rparr>
      in fst (send (SubscribeMsg (topicCmdVel c1) ''geometry_msgs/msg/Twist'') wr c1))"

definition SetDesiredCmdVel :: "TwistData \<Rightarrow> Client \<Rightarrow> Client" where
  "SetDesiredCmdVel twist c = c\<lparr>desiredTwist := twist\<rparr>"

definition SetCmdVelEnabled :: "bool \<Rightarrow> Client \<Rightarrow> Client" where
  "SetCmdVelEnabled enabled c = c\<lparr>cmdVelEnabled := enabled\<rparr>"

subsection \<open>The command-publish tick\<close>

text \<open>
  \<^verbatim>\<open>Client.publishCmdVelTick\<close> in its two parts: the first critical section, which returns
  early or copies \<^verbatim>\<open>desired\<close>, \<^verbatim>\<open>last\<close> and \<^verbatim>\<open>topic\<close>; and the rest, which works on the copies.
  \<open>cmd_equal\<close> is the condition of the \<^verbatim>\<open>if\<close> under "Only publish on change", three
  comparisons by \<^verbatim>\<open>==\<close>, and \<open>cmd_frame\<close> is \<^verbatim>\<open>PublishMsg(topic, msg)\<close> for the \<^verbatim>\<open>msg\<close> built
  from \<^verbatim>\<open>desired\<close>: a publish frame when the three values it carries are finite, and the
  nil slice otherwise. The tick is the composition of the two parts: no other goroutine
  runs between them.
\<close>

definition tick_snapshot :: "Client \<Rightarrow> (TwistData \<times> TwistData \<times> string) option" where
  "tick_snapshot c =
     (if \<not> connected c \<or> \<not> cmdVelEnabled c then None
      else Some (desiredTwist c, lastTwist c, topicCmdVel c))"

definition cmd_equal :: "TwistData \<Rightarrow> TwistData \<Rightarrow> bool" where
  "cmd_equal desired lst \<longleftrightarrow>
     float_eq (LinearX desired) (LinearX lst) \<and> float_eq (AngularZ desired) (AngularZ lst)
     \<and> float_eq (LinearY desired) (LinearY lst)"

definition cmd_finite :: "TwistData \<Rightarrow> bool" where
  "cmd_finite t \<longleftrightarrow> finite64 (LinearX t) \<and> finite64 (LinearY t) \<and> finite64 (AngularZ t)"

definition cmd_frame :: "string \<Rightarrow> TwistData \<Rightarrow> frame" where
  "cmd_frame topic desired =
     (if cmd_finite desired then
        PublishMsg topic
          \<lparr>v3_X = the_real (LinearX desired), v3_Y = the_real (LinearY desired), v3_Z = 0\<rparr>
          \<lparr>v3_X = 0, v3_Y = 0, v3_Z = the_real (AngularZ desired)\<rparr>
      else NilFrame)"

definition tick_publish :: "TwistData \<times> TwistData \<times> string \<Rightarrow> bool \<Rightarrow> Client \<Rightarrow> Client" where
  "tick_publish snap wr c =
     (case snap of (desired, lst, topic) \<Rightarrow>
        if topic = [] then c
        else if cmd_equal desired lst then c
        else
          let c1 = fst (send (cmd_frame topic desired) wr c)
          in c1\<lparr>lastTwist := desired\<rparr>)"

definition publishCmdVelTick :: "bool \<Rightarrow> Client \<Rightarrow> Client" where
  "publishCmdVelTick wr c =
     (case tick_snapshot c of
        None \<Rightarrow> c
      | Some snap \<Rightarrow> tick_publish snap wr c)"

text \<open>
  A link that is connected, has subscribed the default command topic and publishes
  commands, as \<^verbatim>\<open>OnConnected\<close> leaves it.
\<close>

definition cmd_link :: Client where
  "cmd_link =
     SetCmdVelEnabled True
       (SubscribeCmdVel [] True (fst (Connect True (NewClient ''/r1'' ''10.0.0.1'' 9090))))"

text \<open>Three twists: forward, turning, and forward at a speed that is NaN.\<close>

definition twist_forward :: TwistData where
  "twist_forward = zero_TwistData\<lparr>LinearX := Finite 1\<rparr>"

definition twist_turn :: TwistData where
  "twist_turn = zero_TwistData\<lparr>AngularZ := Finite 2\<rparr>"

definition twist_NaN :: TwistData where
  "twist_NaN = zero_TwistData\<lparr>LinearX := NaN\<rparr>"

subsection \<open>Inbound parsers\<close>

text \<open>
  \<^verbatim>\<open>Client.parseMap\<close>. The argument \<open>decoded\<close> is the outcome of \<^verbatim>\<open>json.Unmarshal(msg, &grid)\<close>,
  \<open>None\<close> for a decoding error. The result is the value \<^verbatim>\<open>c.OnMap\<close> is called with, \<open>None\<close>
  when the function returns without calling it.
\<close>

definition parseMap :: "OccupancyGridMsg option \<Rightarrow> Client \<Rightarrow> MapData option" where
  "parseMap decoded c =
     (if \<not> OnMap c then None
      else case decoded of
        None \<Rightarrow> None
      | Some grid \<Rightarrow>
          Some \<lparr>Width = info_width grid, Height = info_height grid,
                Resolution = info_resolution grid,
                OriginX = info_origin_x grid, OriginY = info_origin_y grid,
                Data = convert_cells (grid_data grid)\<rparr>)"

text \<open>
  The loop of \<^verbatim>\<open>Client.parseTF\<close> over \<^verbatim>\<open>tfMsg.Transforms\<close>, on the client, \<^verbatim>\<open>tfData\<close> and
  \<^verbatim>\<open>emitTF\<close>. The yaw is the one value the loop computes rather than copies; its
  arithmetic is written over the reals, with \<^verbatim>\<open>math.Atan2\<close> an argument, and stands for the
  \<^verbatim>\<open>float64\<close> expression of the code. Nothing below depends on it.
\<close>

fun parseTF_range ::
  "(real \<Rightarrow> real \<Rightarrow> real) \<Rightarrow> TFTransform list \<Rightarrow> Client \<times> TFData \<times> bool
    \<Rightarrow> Client \<times> TFData \<times> bool"
where
  "parseTF_range atan2 [] s = s"
| "parseTF_range atan2 (t # ts) (c, tfData, emitTF) =
     (if header_frame_id t = ''map'' \<and> child_frame_id t = ''odom'' then
        parseTF_range atan2 ts
          (c\<lparr>globalMapOdom := zero_TransformStamped
                \<lparr>ts_translation := transform_translation t,
                 ts_rotation := transform_rotation t\<rparr>\<rparr>,
           tfData\<lparr>MapOdomTx := v3_X (transform_translation t),
                  MapOdomTy := v3_Y (transform_translation t),
                  MapOdomTz := v3_Z (transform_translation t),
                  MapOdomRx := q_X (transform_rotation t),
                  MapOdomRy := q_Y (transform_rotation t),
                  MapOdomRz := q_Z (transform_rotation t),
                  MapOdomRw := q_W (transform_rotation t)\<rparr>,
           emitTF)
      else if header_frame_id t = ''odom'' \<and> child_frame_id t = ''base_footprint'' then
        let mo = globalMapOdom c
        in parseTF_range atan2 ts
          (c,
           tfData\<lparr>MapOdomTx := v3_X (ts_translation mo),
                  MapOdomTy := v3_Y (ts_translation mo),
                  MapOdomTz := v3_Z (ts_translation mo),
                  MapOdomRx := q_X (ts_rotation mo),
                  MapOdomRy := q_Y (ts_rotation mo),
                  MapOdomRz := q_Z (ts_rotation mo),
                  MapOdomRw := q_W (ts_rotation mo),
                  BfpTx := v3_X (transform_translation t),
                  BfpTy := v3_Y (transform_translation t),
                  BfpTz := v3_Z (transform_translation t),
                  BfpRx := q_X (transform_rotation t),
                  BfpRy := q_Y (transform_rotation t),
                  BfpRz := q_Z (transform_rotation t),
                  BfpRw := q_W (transform_rotation t),
                  BfpYaw := atan2
                    (2 * (q_W (transform_rotation t) * q_Z (transform_rotation t)
                          + q_X (transform_rotation t) * q_Y (transform_rotation t)))
                    (1 - 2 * (q_Y (transform_rotation t) * q_Y (transform_rotation t)
                              + q_Z (transform_rotation t) * q_Z (transform_rotation t)))\<rparr>,
           True)
      else parseTF_range atan2 ts (c, tfData, emitTF))"

text \<open>
  \<^verbatim>\<open>Client.parseTF\<close>: the client afterwards and the value \<^verbatim>\<open>c.OnTF\<close> is called with, if it is
  called.
\<close>

definition parseTF ::
  "(real \<Rightarrow> real \<Rightarrow> real) \<Rightarrow> TFTransform list option \<Rightarrow> Client \<Rightarrow> Client \<times> TFData option"
where
  "parseTF atan2 decoded c =
     (if \<not> OnTF c then (c, None)
      else case decoded of
        None \<Rightarrow> (c, None)
      | Some transforms \<Rightarrow>
          (case parseTF_range atan2 transforms (c, zero_TFData, False) of
             (c', tfData, emitTF) \<Rightarrow> (c', if emitTF then Some tfData else None)))"

text \<open>The read loop handling successive TF frames: the events emitted, in order.\<close>

fun parseTF_frames ::
  "(real \<Rightarrow> real \<Rightarrow> real) \<Rightarrow> TFTransform list list \<Rightarrow> Client \<Rightarrow> Client \<times> TFData list"
where
  "parseTF_frames atan2 [] c = (c, [])"
| "parseTF_frames atan2 (f # fs) c =
     (case parseTF atan2 (Some f) c of
        (c', ev) \<Rightarrow>
          (case parseTF_frames atan2 fs c' of
             (c'', evs) \<Rightarrow> (c'', (case ev of None \<Rightarrow> [] | Some d \<Rightarrow> [d]) @ evs)))"

text \<open>
  The two frame pairs \<^verbatim>\<open>parseTF\<close> looks for, the map-to-odom half of an event and the
  cached map-to-odom transform, each as a translation and a rotation.
\<close>

definition is_map_odom :: "TFTransform \<Rightarrow> bool" where
  "is_map_odom t \<longleftrightarrow> header_frame_id t = ''map'' \<and> child_frame_id t = ''odom''"

definition is_odom_bfp :: "TFTransform \<Rightarrow> bool" where
  "is_odom_bfp t \<longleftrightarrow> header_frame_id t = ''odom'' \<and> child_frame_id t = ''base_footprint''"

definition MapOdom_half :: "TFData \<Rightarrow> Vector3 \<times> Quaternion" where
  "MapOdom_half d =
     (\<lparr>v3_X = MapOdomTx d, v3_Y = MapOdomTy d, v3_Z = MapOdomTz d\<rparr>,
      \<lparr>q_X = MapOdomRx d, q_Y = MapOdomRy d, q_Z = MapOdomRz d, q_W = MapOdomRw d\<rparr>)"

definition cached_MapOdom :: "Client \<Rightarrow> Vector3 \<times> Quaternion" where
  "cached_MapOdom c = (ts_translation (globalMapOdom c), ts_rotation (globalMapOdom c))"

text \<open>
  The map-to-odom transform that is current after the transforms \<open>ts\<close> have been seen in
  this order, when it was \<open>cache\<close> before: the last map-to-odom transform among them, and
  \<open>cache\<close> when there is none.
\<close>

definition latest_MapOdom :: "Vector3 \<times> Quaternion \<Rightarrow> TFTransform list \<Rightarrow> Vector3 \<times> Quaternion" where
  "latest_MapOdom cache ts =
     (if \<exists>t \<in> set ts. is_map_odom t
      then (transform_translation (last (filter is_map_odom ts)),
            transform_rotation (last (filter is_map_odom ts)))
      else cache)"

text \<open>The frames of \<open>fs\<close>, by index, that hold an odom-to-base_footprint transform.\<close>

definition emitting :: "TFTransform list list \<Rightarrow> nat list" where
  "emitting fs = filter (\<lambda>k. \<exists>t \<in> set (fs ! k). is_odom_bfp t) [0..<length fs]"

text \<open>
  A TF transform from \<^verbatim>\<open>odom\<close> to \<^verbatim>\<open>base_footprint\<close> and one from \<^verbatim>\<open>map\<close> to \<^verbatim>\<open>odom\<close>.
\<close>

definition odom_bfp_example :: TFTransform where
  "odom_bfp_example =
     \<lparr>header_frame_id = ''odom'', child_frame_id = ''base_footprint'',
      transform_translation = \<lparr>v3_X = 1, v3_Y = 2, v3_Z = 0\<rparr>,
      transform_rotation = \<lparr>q_X = 0, q_Y = 0, q_Z = 0, q_W = 1\<rparr>\<rparr>"

definition map_odom_example :: TFTransform where
  "map_odom_example =
     \<lparr>header_frame_id = ''map'', child_frame_id = ''odom'',
      transform_translation = \<lparr>v3_X = 5, v3_Y = 6, v3_Z = 0\<rparr>,
      transform_rotation = \<lparr>q_X = 0, q_Y = 0, q_Z = 1, q_W = 0\<rparr>\<rparr>"

subsection \<open>Service calls\<close>

text \<open>
  The correlation id of \<^verbatim>\<open>CallService\<close>: \<^verbatim>\<open>fmt.Sprintf("svc_%s_%d", service, time.Now().UnixMilli())\<close>,
  with the clock reading as an argument.
\<close>

definition svc_id :: "string \<Rightarrow> int \<Rightarrow> string" where
  "svc_id service now_ms = ''svc_'' @ service @ ''_'' @ fmt_d now_ms"

text \<open>
  \<^verbatim>\<open>CallService\<close> blocks its goroutine while the read loop and other callers run, so it is
  modelled by its atomic steps over a state that holds, besides the client, the store of
  response channels (each of capacity 1), and for every activation of \<^verbatim>\<open>CallService\<close> in
  flight, keyed by the channel it made, its id, service, arguments and whether \<^verbatim>\<open>c.send\<close>
  has returned. \<open>returned\<close> records what each finished activation returned. The arguments
  are their JSON text, or \<open>None\<close> when they cannot be marshalled; \<open>call_frame\<close> is what
  \<^verbatim>\<open>CallServiceMsg(fullService, args, id)\<close> then returns.
\<close>

definition call_frame :: "string \<Rightarrow> json option \<Rightarrow> string \<Rightarrow> frame" where
  "call_frame service args cid =
     (case args of None \<Rightarrow> NilFrame | Some j \<Rightarrow> CallServiceMsg service j cid)"

record call =
  call_id :: string
  call_service :: string
  call_args :: "json option"
  call_sent :: bool

record World =
  link :: Client
  resp_chans :: "nat \<Rightarrow> json list"
  next_resp :: nat
  calls :: "nat \<rightharpoonup> call"
  returned :: "nat \<rightharpoonup> error + json"

definition NewWorld :: "Client \<Rightarrow> World" where
  "NewWorld c =
     \<lparr>link = c, resp_chans = (\<lambda>_. []), next_resp = 0, calls = Map.empty,
      returned = Map.empty\<rparr>"

text \<open>
  The steps: an activation enters (makes its channel and registers it under its id),
  runs \<^verbatim>\<open>c.send\<close>, takes the response branch of the \<^verbatim>\<open>select\<close>, or takes the
  \<^verbatim>\<open>time.After\<close> branch; the read loop handles a \<^verbatim>\<open>service_response\<close> frame; the link goes
  up or down.
\<close>

datatype event =
    Enter string "json option" int
  | Send nat bool
  | Receive nat
  | TimerFires nat
  | Response string json
  | LinkUp
  | LinkDown

definition CallService_enter :: "string \<Rightarrow> json option \<Rightarrow> int \<Rightarrow> World \<Rightarrow> World" where
  "CallService_enter service args now_ms w =
     (let cid = svc_id service now_ms;
          ch = next_resp w
      in w\<lparr>next_resp := Suc ch,
           resp_chans := (resp_chans w)(ch := []),
           link := (link w)\<lparr>svcPending := (svcPending (link w))(cid \<mapsto> ch)\<rparr>,
           calls := (calls w)(ch \<mapsto>
             \<lparr>call_id = cid, call_service = service, call_args = args, call_sent = False\<rparr>)\<rparr>)"

text \<open>A \<^verbatim>\<open>return\<close> of \<^verbatim>\<open>CallService\<close> with result \<open>r\<close>, and the deferred \<^verbatim>\<open>delete(c.svcPending, id)\<close>.\<close>

definition CallService_exit :: "nat \<Rightarrow> call \<Rightarrow> error + json \<Rightarrow> World \<Rightarrow> World" where
  "CallService_exit ch a r w =
     w\<lparr>returned := (returned w)(ch \<mapsto> r),
       calls := (calls w)(ch := None),
       link := (link w)\<lparr>svcPending := (svcPending (link w))(call_id a := None)\<rparr>\<rparr>"

text \<open>
  The steps of an activation; \<open>None\<close> when the activation cannot take the step. The
  response branch needs a message in the channel; the timeout branch needs only that the
  timer has fired.
\<close>

definition CallService_send :: "nat \<Rightarrow> bool \<Rightarrow> World \<Rightarrow> World option" where
  "CallService_send ch wr w =
     (case calls w ch of
        None \<Rightarrow> None
      | Some a \<Rightarrow>
          if call_sent a then None
          else
            (case send (call_frame (ns (link w) @ call_service a) (call_args a) (call_id a))
                    wr (link w) of
               (c', Inl e) \<Rightarrow> Some (CallService_exit ch a (Inl e) (w\<lparr>link := c'\<rparr>))
             | (c', Inr _) \<Rightarrow>
                 Some (w\<lparr>link := c', calls := (calls w)(ch \<mapsto> a\<lparr>call_sent := True\<rparr>)\<rparr>)))"

definition CallService_receive :: "nat \<Rightarrow> World \<Rightarrow> World option" where
  "CallService_receive ch w =
     (case calls w ch of
        None \<Rightarrow> None
      | Some a \<Rightarrow>
          if \<not> call_sent a then None
          else
            (case resp_chans w ch of
               [] \<Rightarrow> None
             | resp # rest \<Rightarrow>
                 Some (CallService_exit ch a (Inr resp)
                        (w\<lparr>resp_chans := (resp_chans w)(ch := rest)\<rparr>))))"

definition CallService_timeout :: "nat \<Rightarrow> World \<Rightarrow> World option" where
  "CallService_timeout ch w =
     (case calls w ch of
        None \<Rightarrow> None
      | Some a \<Rightarrow>
          if \<not> call_sent a then None
          else Some (CallService_exit ch a (Inl (Timeout (call_service a))) w))"

text \<open>
  \<^verbatim>\<open>Client.handleServiceResponse\<close>: the send \<^verbatim>\<open>ch <- raw\<close> blocks while the channel is full
  (\<open>None\<close>).
\<close>

definition handleServiceResponse :: "string \<Rightarrow> json \<Rightarrow> World \<Rightarrow> World option" where
  "handleServiceResponse cid raw w =
     (case svcPending (link w) cid of
        None \<Rightarrow> Some w
      | Some ch \<Rightarrow>
          if length (resp_chans w ch) < 1
          then Some (w\<lparr>resp_chans := (resp_chans w)(ch := resp_chans w ch @ [raw])\<rparr>)
          else None)"

fun step :: "event \<Rightarrow> World \<Rightarrow> World option" where
  "step (Enter service args now_ms) w = Some (CallService_enter service args now_ms w)"
| "step (Send ch wr) w = CallService_send ch wr w"
| "step (Receive ch) w = CallService_receive ch w"
| "step (TimerFires ch) w = CallService_timeout ch w"
| "step (Response cid raw) w = handleServiceResponse cid raw w"
| "step LinkUp w = Some (w\<lparr>link := fst (Connect True (link w))\<rparr>)"
| "step LinkDown w = Some (w\<lparr>link := disconnect (link w)\<rparr>)"

fun run :: "event list \<Rightarrow> World \<Rightarrow> World option" where
  "run [] w = Some w"
| "run (e # es) w = (case step e w of None \<Rightarrow> None | Some w' \<Rightarrow> run es w')"

text \<open>Readers of the state a run ends in.\<close>

definition returned_of :: "nat \<Rightarrow> World option \<Rightarrow> (error + json) option" where
  "returned_of ch wo = (case wo of None \<Rightarrow> None | Some w \<Rightarrow> returned w ch)"

definition inflight_id :: "nat \<Rightarrow> World option \<Rightarrow> string option" where
  "inflight_id ch wo =
     (case wo of None \<Rightarrow> None | Some w \<Rightarrow> map_option call_id (calls w ch))"

definition pending_of :: "string \<Rightarrow> World option \<Rightarrow> nat option" where
  "pending_of cid wo = (case wo of None \<Rightarrow> None | Some w \<Rightarrow> svcPending (link w) cid)"

text \<open>
  The invariant: a table entry belongs to an activation in flight with that id, channels
  are fresh, and an activation that has returned is no longer in flight.
\<close>

definition pending_inv :: "World \<Rightarrow> bool" where
  "pending_inv w \<longleftrightarrow>
     (\<forall>cid ch. svcPending (link w) cid = Some ch \<longrightarrow>
        (\<exists>a. calls w ch = Some a \<and> call_id a = cid))
     \<and> (\<forall>ch \<in> dom (calls w). ch < next_resp w)
     \<and> (\<forall>ch \<in> dom (returned w). ch < next_resp w \<and> calls w ch = None)"

text \<open>
  Two runs: two calls of different services that are never answered, and two calls of one
  service entered in the same millisecond, both sent and both answered by the robot.
\<close>

definition two_pending :: "event list" where
  "two_pending =
     [LinkUp, Enter ''/which_maps'' (Some ''{}'') 1000, Enter ''/which_tasks'' (Some ''{}'') 1000,
      Send 0 True, Send 1 True]"

definition same_millisecond :: "event list" where
  "same_millisecond =
     [LinkUp, Enter ''/which_maps'' (Some ''{}'') 1000, Enter ''/which_maps'' (Some ''{}'') 1000,
      Send 0 True, Send 1 True, Response ''svc_/which_maps_1000'' ''first'', Receive 1,
      Response ''svc_/which_maps_1000'' ''second'', TimerFires 0]"

section \<open>Properties\<close>

subsection \<open>Occupancy-grid cells are reinterpreted as signed bytes\<close>

lemma int8_sub256: "int8 (v - 256) = int8 v"
proof -
  have "uint (int8 (v - 256)) = uint (int8 v)"
    unfolding int8_def
    by (simp add: unsigned_ucast_eq uint_word_ariths take_bit_eq_mod mod_mod_cancel)
  then show ?thesis by (simp add: word_uint_eq_iff)
qed

lemma sint_int8: "sint (int8 v) = signed_take_bit 7 (sint v)"
proof -
  have "take_bit 8 (uint v) = take_bit 8 (sint v)"
    by (simp add: sint_uint take_bit_signed_take_bit)
  then have "signed_take_bit 7 (uint v) = signed_take_bit 7 (sint v)"
    by (simp add: signed_take_bit_eq_iff_take_bit_eq)
  then show ?thesis by (simp add: int8_def signed_ucast_eq)
qed

lemma cell_int8: "cell v = int8 v"
  by (simp add: cell_def int8_sub256)

lemma sint_cell: "sint (cell v) = signed_take_bit 7 (sint v)"
  by (simp add: cell_int8 sint_int8)

lemma sint_cell_range: "- 128 \<le> sint (cell v) \<and> sint (cell v) \<le> 127"
  using sint_ge [of "cell v"] sint_lt [of "cell v"] by simp

lemma sint_cell_mod: "sint (cell v) mod 256 = sint v mod 256"
proof -
  have "take_bit 8 (signed_take_bit 7 (sint v)) = take_bit 8 (sint v)"
    by (simp add: take_bit_signed_take_bit)
  then show ?thesis by (simp add: sint_cell take_bit_eq_mod)
qed

lemma sint_cell_byte:
  assumes "- 128 \<le> sint v" and "sint v \<le> 255"
  shows "sint (cell v) = (if 127 < sint v then sint v - 256 else sint v)"
proof (cases "127 < sint v")
  case False
  with assms(1) show ?thesis by (simp add: sint_cell signed_take_bit_int_eq_self)
next
  case True
  have "take_bit 8 (sint v - 256) = take_bit 8 (sint v)"
    by (simp add: take_bit_eq_mod)
  then have "signed_take_bit 7 (sint v) = signed_take_bit 7 (sint v - 256)"
    by (simp add: signed_take_bit_eq_iff_take_bit_eq)
  also have "\<dots> = sint v - 256"
    using True assms(2) by (simp add: signed_take_bit_int_eq_self)
  finally show ?thesis using True by (simp add: sint_cell)
qed

lemma length_convert_cells: "length (convert_cells vs) = length vs"
  by (induction vs) simp_all

lemma nth_convert_cells: "i < length vs \<Longrightarrow> convert_cells vs ! i = cell (vs ! i)"
proof (induction vs arbitrary: i)
  case Nil
  then show ?case by simp
next
  case (Cons v vs)
  then show ?case by (cases i) simp_all
qed

lemma Map_robot_OnMap: "Map (robot_OnMap now r m) = m"
  by (simp add: robot_OnMap_def split: prod.split)

text \<open>
  Claim C10. On a link whose map callback is set, \<^verbatim>\<open>parseMap\<close> of a publish frame that
  decodes calls the callback with a grid, and the grid the robot then caches has one cell
  per decoded value; the cell stored for the decoded integer \<open>v\<close> lies in \<open>[-128, 127]\<close>
  and is congruent to \<open>v\<close> modulo 256, and for \<open>v\<close> in the byte range \<open>[-128, 255]\<close> of a
  well-formed occupancy grid it is \<open>v - 256\<close> when \<open>v > 127\<close> and \<open>v\<close> otherwise. The
  dimensions, the resolution and the origin are stored as decoded.
\<close>

theorem parseMap_signed_byte:
  assumes "OnMap c"
  shows "\<exists>md. parseMap (Some grid) c = Some md
    \<and> Width (Map (robot_OnMap now r md)) = info_width grid
    \<and> Height (Map (robot_OnMap now r md)) = info_height grid
    \<and> Resolution (Map (robot_OnMap now r md)) = info_resolution grid
    \<and> OriginX (Map (robot_OnMap now r md)) = info_origin_x grid
    \<and> OriginY (Map (robot_OnMap now r md)) = info_origin_y grid
    \<and> MapReceived (robot_OnMap now r md)
    \<and> length (Data (Map (robot_OnMap now r md))) = length (grid_data grid)
    \<and> (\<forall>i < length (grid_data grid).
          - 128 \<le> sint (Data (Map (robot_OnMap now r md)) ! i)
          \<and> sint (Data (Map (robot_OnMap now r md)) ! i) \<le> 127
          \<and> sint (Data (Map (robot_OnMap now r md)) ! i) mod 256
              = sint (grid_data grid ! i) mod 256
          \<and> (- 128 \<le> sint (grid_data grid ! i) \<and> sint (grid_data grid ! i) \<le> 255 \<longrightarrow>
               sint (Data (Map (robot_OnMap now r md)) ! i) =
                 (if 127 < sint (grid_data grid ! i) then sint (grid_data grid ! i) - 256
                  else sint (grid_data grid ! i))))"
proof -
  define md where "md = \<lparr>Width = info_width grid, Height = info_height grid,
    Resolution = info_resolution grid, OriginX = info_origin_x grid,
    OriginY = info_origin_y grid, Data = convert_cells (grid_data grid)\<rparr>"
  have p: "parseMap (Some grid) c = Some md"
    using assms by (simp add: parseMap_def md_def)
  have m: "Map (robot_OnMap now r md) = md"
    by (rule Map_robot_OnMap)
  have rcv: "MapReceived (robot_OnMap now r md)"
    by (simp add: robot_OnMap_def split: prod.split)
  have cells: "- 128 \<le> sint (Data md ! i) \<and> sint (Data md ! i) \<le> 127
      \<and> sint (Data md ! i) mod 256 = sint (grid_data grid ! i) mod 256
      \<and> (- 128 \<le> sint (grid_data grid ! i) \<and> sint (grid_data grid ! i) \<le> 255 \<longrightarrow>
           sint (Data md ! i) =
             (if 127 < sint (grid_data grid ! i) then sint (grid_data grid ! i) - 256
              else sint (grid_data grid ! i)))"
    if "i < length (grid_data grid)" for i
  proof -
    have nth: "Data md ! i = cell (grid_data grid ! i)"
      using that by (simp add: md_def nth_convert_cells)
    show ?thesis
      unfolding nth
      using sint_cell_range [of "grid_data grid ! i"] sint_cell_mod [of "grid_data grid ! i"]
        sint_cell_byte [of "grid_data grid ! i"]
      by simp
  qed
  have fields: "Width md = info_width grid" "Height md = info_height grid"
      "Resolution md = info_resolution grid" "OriginX md = info_origin_x grid"
      "OriginY md = info_origin_y grid" "length (Data md) = length (grid_data grid)"
    by (simp_all add: md_def length_convert_cells)
  show ?thesis
    unfolding m
    apply (rule exI [of _ md])
    using p rcv fields cells unfolding m by simp
qed

theorem parseMap_signed_byte_witness:
  "\<exists>md. parseMap (Some \<lparr>info_width = 2, info_height = 1, info_resolution = 1,
        info_origin_x = 0, info_origin_y = 0, grid_data = [200, 100]\<rparr>)
      ((NewClient ''/r1'' ''10.0.0.1'' 9090)\<lparr>OnMap := True\<rparr>) = Some md
    \<and> map sint (Data (Map (robot_OnMap 1 (NewRobot ''1'' ''/r1'' ''r1'' ''10.0.0.1'' 9090) md)))
        = [- 56, 100]"
proof -
  let ?g = "\<lparr>info_width = 2, info_height = 1, info_resolution = 1,
        info_origin_x = 0, info_origin_y = 0, grid_data = [200, 100]\<rparr>"
  let ?c = "(NewClient ''/r1'' ''10.0.0.1'' 9090)\<lparr>OnMap := True\<rparr>"
  let ?r = "NewRobot ''1'' ''/r1'' ''r1'' ''10.0.0.1'' 9090"
  have h: "OnMap ?c" by simp
  from parseMap_signed_byte [OF h, of ?g 1 ?r]
  obtain md where md: "parseMap (Some ?g) ?c = Some md"
    and len: "length (Data (Map (robot_OnMap 1 ?r md))) = length (grid_data ?g)"
    and cells: "\<forall>i < length (grid_data ?g).
          (- 128 \<le> sint (grid_data ?g ! i) \<and> sint (grid_data ?g ! i) \<le> 255 \<longrightarrow>
               sint (Data (Map (robot_OnMap 1 ?r md)) ! i) =
                 (if 127 < sint (grid_data ?g ! i) then sint (grid_data ?g ! i) - 256
                  else sint (grid_data ?g ! i)))"
    by blast
  from cells [rule_format, of 0] have c0: "sint (Data (Map (robot_OnMap 1 ?r md)) ! 0) = - 56"
    by simp
  from cells [rule_format, of 1] have c1: "sint (Data (Map (robot_OnMap 1 ?r md)) ! 1) = 100"
    by simp
  from len have l2: "length (Data (Map (robot_OnMap 1 ?r md))) = 2" by simp
  have ms: "map sint (Data (Map (robot_OnMap 1 ?r md))) = [- 56, 100]"
    using l2 c0 c1 by (auto simp: list_eq_iff_nth_eq less_Suc_eq numeral_2_eq_2)
  show ?thesis
    apply (rule exI [of _ md])
    apply (rule conjI)
     apply (rule md)
    apply (rule ms)
    done
qed

subsection \<open>The manager\<close>

lemma udec_nonempty: "udec n \<noteq> []"
  by (subst udec.simps) simp

lemma fmt_d_nonempty: "fmt_d i \<noteq> []"
  by (simp add: fmt_d_def udec_nonempty)

lemma Broadcast_range_open:
  "distinct cs \<Longrightarrow> \<forall>ch \<in> set cs. \<not> chan_closed (h ch) \<Longrightarrow>
   Broadcast_range cs msg h = Inr (\<lambda>ch. if ch \<in> set cs then deliver msg (h ch) else h ch)"
proof (induction cs arbitrary: h)
  case Nil
  then show ?case by simp
next
  case (Cons c cs)
  show ?case
  proof (cases "length (chan_buf (h c)) < chan_cap (h c)")
    case True
    let ?h = "h(c := (h c)\<lparr>chan_buf := chan_buf (h c) @ [msg]\<rparr>)"
    have "Broadcast_range cs msg ?h
        = Inr (\<lambda>ch. if ch \<in> set cs then deliver msg (?h ch) else ?h ch)"
      using Cons.prems by (intro Cons.IH) auto
    then show ?thesis
      using Cons.prems True by (auto simp: try_send_def deliver_def fun_eq_iff)
  next
    case False
    have "Broadcast_range cs msg h
        = Inr (\<lambda>ch. if ch \<in> set cs then deliver msg (h ch) else h ch)"
      using Cons.prems by (intro Cons.IH) auto
    then show ?thesis
      using Cons.prems False by (auto simp: try_send_def deliver_def fun_eq_iff)
  qed
qed

lemma Broadcast_range_closed:
  "Broadcast_range cs msg h = Inr h' \<Longrightarrow> chan_closed (h' ch) = chan_closed (h ch)"
proof (induction cs arbitrary: h)
  case Nil
  then show ?case by simp
next
  case (Cons c cs)
  then show ?case
    by (auto simp: try_send_def split: if_splits)
qed

lemma Broadcast_frame:
  assumes "Broadcast cs msg m = Inr m'"
  shows "robots m' = robots m" "currentID m' = currentID m" "nextID m' = nextID m"
    "subscribers m' = subscribers m" "next_chan m' = next_chan m"
    "chan_closed (chans m' ch) = chan_closed (chans m ch)"
  using assms by (auto simp: Broadcast_def Broadcast_range_closed split: sum.splits)

lemma Broadcast_inv: "manager_inv m \<Longrightarrow> Broadcast cs msg m = Inr m' \<Longrightarrow> manager_inv m'"
  by (simp add: manager_inv_def Broadcast_frame)

lemma Broadcast_total:
  assumes "manager_inv m" "range_order (subscribers m) cs"
  shows "Broadcast cs msg m
    = Inr (m\<lparr>chans := (\<lambda>ch. if ch \<in> subscribers m then deliver msg (chans m ch) else chans m ch)\<rparr>)"
proof -
  have "Broadcast_range cs msg (chans m)
      = Inr (\<lambda>ch. if ch \<in> set cs then deliver msg (chans m ch) else chans m ch)"
    using assms by (intro Broadcast_range_open) (auto simp: manager_inv_def range_order_def)
  then show ?thesis using assms(2) by (simp add: Broadcast_def range_order_def)
qed

lemma AddRobot_inv:
  assumes "manager_inv m" "AddRobot ks cs nsp name ip prt m = (m', res)"
  shows "manager_inv m'"
proof (cases "duplicate_range ks (robots m) ip prt")
  case True
  with assms show ?thesis by (simp add: AddRobot_def)
next
  case False
  define rid where "rid = fmt_d (sint (nextID m))"
  define m3 where "m3 = (let m2 = m\<lparr>nextID := nextID m + 1, robots := (robots m)(rid \<mapsto> NewRobot rid nsp name ip prt)\<rparr> in if currentID m2 = [] then m2\<lparr>currentID := rid\<rparr> else m2)"
  have rid: "rid \<noteq> []" by (simp add: rid_def fmt_d_nonempty)
  have inv3: "manager_inv m3"
    using assms(1) rid by (auto simp: manager_inv_def m3_def Let_def)
  have "m' = m3 \<or> (\<exists>msg. Broadcast cs msg m3 = Inr m')"
    using assms(2) False
    by (auto simp: AddRobot_def Let_def m3_def rid_def split: sum.splits)
  with inv3 show ?thesis by (auto intro: Broadcast_inv)
qed

lemma reselect_inv:
  assumes "manager_inv m" and "robots m rid = Some r"
    and "range_order (dom (robots m) - {rid}) ks"
  shows "manager_inv (first_of_range ks (m\<lparr>robots := (robots m)(rid := None), currentID := []\<rparr>))"
proof -
  have ks: "set ks = dom (robots m) - {rid}" using assms(3) by (simp add: range_order_def)
  show ?thesis
  proof (cases ks)
    case Nil
    with ks have "dom ((robots m)(rid := None)) = {}" by auto
    then have e: "(robots m)(rid := None) = Map.empty" by (simp only: dom_eq_empty_conv)
    with Nil assms(1) show ?thesis
      by (simp add: manager_inv_def first_of_range_def)
  next
    case (Cons k ks')
    with ks have k: "k \<in> dom (robots m) - {rid}" by auto
    then have "((robots m)(rid := None)) k \<noteq> None" by auto
    then have ne: "(robots m)(rid := None) \<noteq> Map.empty" by metis
    from k assms(1) have "k \<noteq> []" by (auto simp: manager_inv_def)
    with k ne Cons assms(1) show ?thesis
      by (auto simp: manager_inv_def first_of_range_def)
  qed
qed

lemma unselected_inv:
  assumes "manager_inv m" and "robots m rid = Some r" and "currentID m \<noteq> rid"
  shows "manager_inv (m\<lparr>robots := (robots m)(rid := None)\<rparr>)"
proof -
  from assms have cur: "currentID m \<noteq> []" "currentID m \<in> dom (robots m)"
    by (auto simp: manager_inv_def)
  with assms(3) have "((robots m)(rid := None)) (currentID m) \<noteq> None" by auto
  then have "(robots m)(rid := None) \<noteq> Map.empty" by metis
  with cur assms show ?thesis by (auto simp: manager_inv_def)
qed

lemma RemoveRobot_inv:
  assumes "manager_inv m" "range_order (dom (robots m) - {rid}) ks"
    "RemoveRobot ks cs rid m = (m', res)"
  shows "manager_inv m'"
proof (cases "robots m rid")
  case None
  with assms show ?thesis by (simp add: RemoveRobot_def)
next
  case (Some r)
  define m2 where "m2 = (if currentID m = rid
    then first_of_range ks (m\<lparr>robots := (robots m)(rid := None), currentID := []\<rparr>)
    else m\<lparr>robots := (robots m)(rid := None)\<rparr>)"
  have inv2: "manager_inv m2"
    unfolding m2_def
    using reselect_inv [OF assms(1) Some assms(2)] unselected_inv [OF assms(1) Some]
    by simp
  have "m' = m2 \<or> (\<exists>msg. Broadcast cs msg m2 = Inr m')"
    using assms(3) Some
    by (auto simp: RemoveRobot_def Let_def m2_def split: sum.splits)
  with inv2 show ?thesis by (auto intro: Broadcast_inv)
qed

lemma SwitchRobot_inv:
  assumes "manager_inv m" "SwitchRobot cs rid m = (m', res)"
  shows "manager_inv m'"
proof (cases "robots m rid")
  case None
  with assms show ?thesis by (simp add: SwitchRobot_def)
next
  case (Some r)
  have inv1: "manager_inv (m\<lparr>currentID := rid\<rparr>)"
    using assms(1) Some by (auto simp: manager_inv_def)
  have "m' = m\<lparr>currentID := rid\<rparr> \<or> (\<exists>msg. Broadcast cs msg (m\<lparr>currentID := rid\<rparr>) = Inr m')"
    using assms(2) Some by (auto simp: SwitchRobot_def Let_def split: sum.splits)
  with inv1 show ?thesis by (auto intro: Broadcast_inv)
qed

lemma reachable_inv: "reachable m \<Longrightarrow> manager_inv m"
proof (induction rule: reachable.induct)
  case init
  then show ?case by (simp add: manager_inv_def NewManager_def)
next
  case (subscribe m ch m')
  then show ?case
    by (auto simp: manager_inv_def Subscribe_def Let_def make_chan_def split: if_splits)
next
  case (unsubscribe m ch m')
  then show ?case by (auto simp: manager_inv_def Unsubscribe_def Let_def split: if_splits)
next
  case (broadcast m cs msg m')
  then show ?case by (auto intro: Broadcast_inv)
next
  case (receive m ch x m')
  then show ?case by (auto simp: manager_inv_def chan_recv_def split: list.splits if_splits)
next
  case (add m ks cs nsp name ip prt m' res)
  then show ?case by (auto intro: AddRobot_inv)
next
  case (remove m rid ks cs m' res)
  then show ?case by (auto intro: RemoveRobot_inv)
next
  case (switch m cs rid m' res)
  then show ?case by (auto intro: SwitchRobot_inv)
qed

lemma duplicate_range_iff:
  "duplicate_range ks rs ip prt
    \<longleftrightarrow> (\<exists>k \<in> set ks. \<exists>r. rs k = Some r \<and> IP r = ip \<and> Port r = prt)"
  by (induction ks) (auto split: option.splits)

lemma fmt_d_examples: "fmt_d 1 = ''1''" "fmt_d 2 = ''2''" "fmt_d (- 12) = ''-12''" "fmt_d 1234567 = ''1234567''"
  by (simp_all add: fmt_d_def udec.simps digit_char_def)

lemma one_robot_eq:
  "fst (AddRobot [] [] ''/r1'' ''first'' ''10.0.0.1'' 9090 NewManager)
   = NewManager\<lparr>robots := [''1'' \<mapsto> NewRobot ''1'' ''/r1'' ''first'' ''10.0.0.1'' 9090],
       currentID := ''1'', nextID := 2\<rparr>"
  by (simp add: AddRobot_def Broadcast_def NewManager_def Let_def fmt_d_def udec.simps digit_char_def)

lemma two_robots_eq:
  "two_robots = NewManager\<lparr>robots := [''1'' \<mapsto> NewRobot ''1'' ''/r1'' ''first'' ''10.0.0.1'' 9090,
        ''2'' \<mapsto> NewRobot ''2'' ''/r2'' ''second'' ''10.0.0.2'' 9090],
       currentID := ''1'', nextID := 3\<rparr>"
  unfolding two_robots_def one_robot_eq
  by (simp add: AddRobot_def Broadcast_def NewManager_def NewRobot_def Let_def fmt_d_def udec.simps digit_char_def)

lemma reachable_two_robots: "reachable two_robots"
  unfolding two_robots_def
proof (rule reachable.add [OF reachable.add [OF reachable.init]])
  show "AddRobot [''1''] [] ''/r2'' ''second'' ''10.0.0.2'' 9090
       (fst (AddRobot [] [] ''/r1'' ''first'' ''10.0.0.1'' 9090 NewManager)) = 
     (fst (AddRobot [''1''] [] ''/r2'' ''second'' ''10.0.0.2'' 9090
       (fst (AddRobot [] [] ''/r1'' ''first'' ''10.0.0.1'' 9090 NewManager))), 
      snd (AddRobot [''1''] [] ''/r2'' ''second'' ''10.0.0.2'' 9090
       (fst (AddRobot [] [] ''/r1'' ''first'' ''10.0.0.1'' 9090 NewManager))))"
    by simp
  show "AddRobot [] [] ''/r1'' ''first'' ''10.0.0.1'' 9090 NewManager
    = (fst (AddRobot [] [] ''/r1'' ''first'' ''10.0.0.1'' 9090 NewManager),
       snd (AddRobot [] [] ''/r1'' ''first'' ''10.0.0.1'' 9090 NewManager))"
    by simp
  show "range_order (dom (robots NewManager)) []" "range_order (subscribers NewManager) []"
    by (simp_all add: range_order_def NewManager_def)
  show "range_order (dom (robots (fst (AddRobot [] [] ''/r1'' ''first'' ''10.0.0.1'' 9090 NewManager)))) [''1'']"
    "range_order (subscribers (fst (AddRobot [] [] ''/r1'' ''first'' ''10.0.0.1'' 9090 NewManager))) []"
    unfolding one_robot_eq by (simp_all add: range_order_def NewManager_def)
qed

lemma reachable_two_subscribers: "reachable (snd (Subscribe (snd (Subscribe NewManager))))"
  by (rule reachable.subscribe [OF reachable.subscribe [OF reachable.init]]) 
     (rule prod.collapse [symmetric])+

lemma Broadcast_range_full_example:
  "map_sum id (\<lambda>h. (chan_buf (h 0), chan_buf (h 1)))
     (Broadcast_range [0, 1] \<lparr>Type = ''odom'', RobotID = ''1'', bData = OtherData\<rparr>
       ((\<lambda>_. make_chan 1)(0 := \<lparr>chan_buf = [\<lparr>Type = ''map'', RobotID = ''1'', bData = NoData\<rparr>],
           chan_cap = 1, chan_closed = False\<rparr>)))
   = Inr ([\<lparr>Type = ''map'', RobotID = ''1'', bData = NoData\<rparr>],
          [\<lparr>Type = ''odom'', RobotID = ''1'', bData = OtherData\<rparr>])"
  by (simp add: try_send_def make_chan_def)

text \<open>
  Claim C4. In every reachable manager and for every order in which the loop visits the
  registered queues, \<^verbatim>\<open>Broadcast\<close> returns; afterwards each registered queue with free
  capacity holds the message at its end, each full registered queue and each unregistered
  queue is as before, and nothing else of the manager has changed.
\<close>

theorem Broadcast_drop_on_full:
  assumes "reachable m" and "range_order (subscribers m) cs"
  shows "\<exists>m'. Broadcast cs msg m = Inr m'
    \<and> (\<forall>ch. chans m' ch =
          (if ch \<in> subscribers m \<and> length (chan_buf (chans m ch)) < chan_cap (chans m ch)
           then (chans m ch)\<lparr>chan_buf := chan_buf (chans m ch) @ [msg]\<rparr>
           else chans m ch))
    \<and> subscribers m' = subscribers m \<and> robots m' = robots m
    \<and> currentID m' = currentID m \<and> nextID m' = nextID m"
  using Broadcast_total [OF reachable_inv [OF assms(1)] assms(2), of msg]
  by (simp add: deliver_def)

theorem Broadcast_drop_on_full_witness:
  "\<exists>m'. Broadcast [1, 0] \<lparr>Type = ''map'', RobotID = ''1'', bData = NoData\<rparr>
        (snd (Subscribe (snd (Subscribe NewManager)))) = Inr m'
     \<and> chan_buf (chans m' 0) = [\<lparr>Type = ''map'', RobotID = ''1'', bData = NoData\<rparr>]
     \<and> chan_buf (chans m' 1) = [\<lparr>Type = ''map'', RobotID = ''1'', bData = NoData\<rparr>]
     \<and> chan_buf (chans m' 2) = []"
proof -
  have ro: "range_order (subscribers (snd (Subscribe (snd (Subscribe NewManager))))) [1, 0]"
    by (auto simp: range_order_def Subscribe_def NewManager_def Let_def)
  from Broadcast_drop_on_full [OF reachable_two_subscribers ro,
      of "\<lparr>Type = ''map'', RobotID = ''1'', bData = NoData\<rparr>"]
  obtain m' where m': "Broadcast [1, 0] \<lparr>Type = ''map'', RobotID = ''1'', bData = NoData\<rparr>
        (snd (Subscribe (snd (Subscribe NewManager)))) = Inr m'"
     and ch: "\<forall>ch. chans m' ch =
          (if ch \<in> subscribers (snd (Subscribe (snd (Subscribe NewManager)))) 
             \<and> length (chan_buf (chans (snd (Subscribe (snd (Subscribe NewManager)))) ch)) < chan_cap (chans (snd (Subscribe (snd (Subscribe NewManager)))) ch)
           then (chans (snd (Subscribe (snd (Subscribe NewManager)))) ch)\<lparr>chan_buf := chan_buf (chans (snd (Subscribe (snd (Subscribe NewManager)))) ch) @ [\<lparr>Type = ''map'', RobotID = ''1'', bData = NoData\<rparr>]\<rparr>
           else chans (snd (Subscribe (snd (Subscribe NewManager)))) ch)"
    by blast
  from ch have "chan_buf (chans m' 0) = [\<lparr>Type = ''map'', RobotID = ''1'', bData = NoData\<rparr>]"
     "chan_buf (chans m' 1) = [\<lparr>Type = ''map'', RobotID = ''1'', bData = NoData\<rparr>]"
     "chan_buf (chans m' 2) = []"
    by (simp_all add: Subscribe_def NewManager_def Let_def make_chan_def)
  with m' show ?thesis by blast
qed

text \<open>
  Claim C5, as the claim states it, fails: after \<^verbatim>\<open>Subscribe\<close> the first \<^verbatim>\<open>Unsubscribe\<close> of
  the queue succeeds and the second panics with \<^verbatim>\<open>close of closed channel\<close>.
\<close>

theorem Unsubscribe_twice_counterexample:
  "\<not> isl (Unsubscribe 0 (snd (Subscribe NewManager)))
   \<and> and_then (Unsubscribe 0 (snd (Subscribe NewManager))) (Unsubscribe 0)
       = Inl (Panic ''close of closed channel'')"
  by (simp add: and_then_def Unsubscribe_def Subscribe_def NewManager_def Let_def make_chan_def)

text \<open>
  Claim C5, amended. \<^verbatim>\<open>Unsubscribe\<close> of a registered queue deregisters it, closes it and
  touches no other queue; a second \<^verbatim>\<open>Unsubscribe\<close> of the same queue panics on the
  \<^verbatim>\<open>close\<close>. The once-guarded \<^verbatim>\<open>cleanup\<close> of the browser connection, which is what calls
  \<^verbatim>\<open>Unsubscribe\<close>, is a no-op when it runs a second time.
\<close>

theorem Unsubscribe_once:
  assumes "reachable m" and "ch \<in> subscribers m"
  shows "\<exists>m1. Unsubscribe ch m = Inr m1
      \<and> subscribers m1 = subscribers m - {ch} \<and> chan_closed (chans m1 ch)
      \<and> (\<forall>c. c \<noteq> ch \<longrightarrow> chans m1 c = chans m c)
      \<and> Unsubscribe ch m1 = Inl (Panic ''close of closed channel'')
      \<and> (\<forall>w. bcast w = ch \<and> \<not> closeOnce_done w \<and> \<not> done_closed w \<longrightarrow>
            (\<exists>w1. cleanup w m = Inr (w1, m1) \<and> cleanup w1 m1 = Inr (w1, m1)))"
proof -
  from reachable_inv [OF assms(1)] assms(2) have op: "\<not> chan_closed (chans m ch)"
    by (simp add: manager_inv_def)
  define m1 where "m1 = m\<lparr>subscribers := subscribers m - {ch},
    chans := (chans m)(ch := (chans m ch)\<lparr>chan_closed := True\<rparr>)\<rparr>"
  have u: "Unsubscribe ch m = Inr m1"
    using op by (simp add: Unsubscribe_def m1_def Let_def)
  have u2: "Unsubscribe ch m1 = Inl (Panic ''close of closed channel'')"
    by (simp add: Unsubscribe_def m1_def Let_def)
  have c: "\<exists>w1. cleanup w m = Inr (w1, m1) \<and> cleanup w1 m1 = Inr (w1, m1)"
    if "bcast w = ch \<and> \<not> closeOnce_done w \<and> \<not> done_closed w" for w
    using that u by (simp add: cleanup_def Let_def)
  show ?thesis
    using u u2 c by (auto simp: m1_def)
qed

theorem Unsubscribe_once_witness:
  "\<exists>m1. Unsubscribe 0 (snd (Subscribe NewManager)) = Inr m1
      \<and> subscribers m1 = {} \<and> chan_closed (chans m1 0)
      \<and> Unsubscribe 0 m1 = Inl (Panic ''close of closed channel'')
      \<and> (\<exists>w1. cleanup \<lparr>bcast = 0, done_closed = False, closeOnce_done = False,
                  conn_closed = False, lastMapSend = 0, written = []\<rparr>
                (snd (Subscribe NewManager)) = Inr (w1, m1)
             \<and> cleanup w1 m1 = Inr (w1, m1))"
proof -
  have r: "reachable (snd (Subscribe NewManager))"
    by (rule reachable.subscribe [OF reachable.init]) (rule prod.collapse [symmetric])
  have s: "0 \<in> subscribers (snd (Subscribe NewManager))"
    by (simp add: Subscribe_def NewManager_def Let_def)
  from Unsubscribe_once [OF r s] obtain m1 where
    a: "Unsubscribe 0 (snd (Subscribe NewManager)) = Inr m1"
    and b: "subscribers m1 = subscribers (snd (Subscribe NewManager)) - {0}"
    and c: "chan_closed (chans m1 0)"
    and d: "Unsubscribe 0 m1 = Inl (Panic ''close of closed channel'')"
    and e: "\<forall>w. bcast w = 0 \<and> \<not> closeOnce_done w \<and> \<not> done_closed w \<longrightarrow>
            (\<exists>w1. cleanup w (snd (Subscribe NewManager)) = Inr (w1, m1)
               \<and> cleanup w1 m1 = Inr (w1, m1))"
    by blast
  from b have b': "subscribers m1 = {}"
    by (simp add: Subscribe_def NewManager_def Let_def)
  from e have e': "\<exists>w1. cleanup \<lparr>bcast = 0, done_closed = False, closeOnce_done = False,
                  conn_closed = False, lastMapSend = 0, written = []\<rparr>
                (snd (Subscribe NewManager)) = Inr (w1, m1)
             \<and> cleanup w1 m1 = Inr (w1, m1)"
    by simp
  from a b' c d e' show ?thesis by blast
qed

text \<open>
  Claim C6. When the registry holds a robot with host \<open>ip\<close> and port \<open>prt\<close>, \<^verbatim>\<open>AddRobot\<close>
  with that host and port returns the conflict error and leaves the manager as it was:
  the robot map, the selection and the next-id counter are unchanged.
\<close>

theorem AddRobot_duplicate:
  assumes "robots m k = Some r" and "IP r = ip" and "Port r = prt"
    and "range_order (dom (robots m)) ks"
  shows "AddRobot ks cs nsp name ip prt m = (m, Inl (Conflict ip prt))"
proof -
  from assms(1,4) have "k \<in> set ks" by (auto simp: range_order_def)
  with assms(1-3) have "duplicate_range ks (robots m) ip prt"
    by (auto simp: duplicate_range_iff)
  then show ?thesis by (simp add: AddRobot_def)
qed

theorem AddRobot_duplicate_witness:
  "AddRobot [''1''] [] ''/r2'' ''second'' ''10.0.0.1'' 9090
     (NewManager\<lparr>robots := [''1'' \<mapsto> NewRobot ''1'' ''/r1'' ''first'' ''10.0.0.1'' 9090],
        currentID := ''1'', nextID := 2\<rparr>)
   = (NewManager\<lparr>robots := [''1'' \<mapsto> NewRobot ''1'' ''/r1'' ''first'' ''10.0.0.1'' 9090],
        currentID := ''1'', nextID := 2\<rparr>, Inl (Conflict ''10.0.0.1'' 9090))"
  by (rule AddRobot_duplicate [where k = "''1''" and r = "NewRobot ''1'' ''/r1'' ''first'' ''10.0.0.1'' 9090"])
    (simp_all add: NewRobot_def range_order_def)

text \<open>
  Claim C7. In every manager reachable from \<^verbatim>\<open>NewManager\<close>: \<^verbatim>\<open>RemoveRobot\<close> of an unknown
  id returns the not-found error and changes nothing; \<^verbatim>\<open>RemoveRobot\<close> of the selected robot
  deletes it and leaves the selection empty when no robot remains and on a remaining robot
  otherwise; \<^verbatim>\<open>GetCurrentRobot\<close> is empty exactly when the registry is; and a non-empty
  selection names a registered robot, which \<^verbatim>\<open>GetCurrentRobot\<close> returns.
\<close>

theorem RemoveRobot_selection:
  assumes "reachable m" and "range_order (dom (robots m) - {rid}) ks"
    and "range_order (subscribers m) cs"
  shows "(robots m rid = None \<longrightarrow> RemoveRobot ks cs rid m = (m, Inl (NotFound rid)))
    \<and> (robots m rid \<noteq> None \<and> currentID m = rid \<longrightarrow>
         (\<exists>m'. RemoveRobot ks cs rid m = (m', Inr ())
            \<and> robots m' = (robots m)(rid := None)
            \<and> (if robots m' = Map.empty then currentID m' = []
                else currentID m' \<in> dom (robots m'))))
    \<and> (GetCurrentRobot m = None \<longleftrightarrow> robots m = Map.empty)
    \<and> (currentID m \<noteq> [] \<longrightarrow> GetCurrentRobot m = robots m (currentID m)
          \<and> currentID m \<in> dom (robots m))"
proof -
  note inv = reachable_inv [OF assms(1)]
  have a: "RemoveRobot ks cs rid m = (m, Inl (NotFound rid))" if "robots m rid = None"
    using that by (simp add: RemoveRobot_def)
  have b: "\<exists>m'. RemoveRobot ks cs rid m = (m', Inr ())
            \<and> robots m' = (robots m)(rid := None)
            \<and> (if robots m' = Map.empty then currentID m' = []
                else currentID m' \<in> dom (robots m'))"
    if h: "robots m rid \<noteq> None \<and> currentID m = rid"
  proof -
    define m2 where "m2 = first_of_range ks (m\<lparr>robots := (robots m)(rid := None), currentID := []\<rparr>)"
    have sub2: "subscribers m2 = subscribers m" and rob2: "robots m2 = (robots m)(rid := None)"
      by (simp_all add: m2_def first_of_range_def split: list.splits)
    from h obtain r where r: "robots m rid = Some r" by auto
    have inv2: "manager_inv m2"
      unfolding m2_def by (rule reselect_inv [OF inv r assms(2)])
    have ro: "range_order (subscribers m2) cs" using assms(3) by (simp add: sub2)
    note bt = Broadcast_total [OF inv2 ro, of "\<lparr>Type = ''robot_removed'', RobotID = rid, bData = NoData\<rparr>"]
    define m' where "m' = m2\<lparr>chans := (\<lambda>ch. if ch \<in> subscribers m2
      then deliver \<lparr>Type = ''robot_removed'', RobotID = rid, bData = NoData\<rparr> (chans m2 ch)
      else chans m2 ch)\<rparr>"
    have rr: "RemoveRobot ks cs rid m = (m', Inr ())"
      using h r bt by (simp add: RemoveRobot_def Let_def m2_def m'_def)
    have f1: "robots m' = robots m2" and f2: "currentID m' = currentID m2"
      by (simp_all add: m'_def)
    from inv2 have "if robots m2 = Map.empty then currentID m2 = []
        else currentID m2 \<in> dom (robots m2)"
      by (auto simp: manager_inv_def)
    then have f3: "if robots m' = Map.empty then currentID m' = []
        else currentID m' \<in> dom (robots m')"
      by (simp only: f1 f2)
    have f4: "robots m' = (robots m)(rid := None)" by (simp only: f1 rob2)
    from rr f4 f3 show ?thesis by blast
  qed
  have c: "GetCurrentRobot m = None \<longleftrightarrow> robots m = Map.empty"
    using inv by (auto simp: manager_inv_def GetCurrentRobot_def)
  have d: "GetCurrentRobot m = robots m (currentID m) \<and> currentID m \<in> dom (robots m)"
    if "currentID m \<noteq> []"
    using inv that by (auto simp: manager_inv_def GetCurrentRobot_def)
  from a b c d show ?thesis by blast
qed

theorem RemoveRobot_selection_witness:
  "(\<exists>m'. RemoveRobot [''2''] [] ''1'' two_robots = (m', Inr ())
      \<and> robots m' = (robots two_robots)(''1'' := None)
      \<and> currentID m' = ''2'')
   \<and> currentID two_robots = ''1''
   \<and> GetCurrentRobot two_robots = Some (NewRobot ''1'' ''/r1'' ''first'' ''10.0.0.1'' 9090)"
proof -
  have ks: "range_order (dom (robots two_robots) - {''1''}) [''2'']"
    unfolding two_robots_eq by (auto simp: range_order_def NewManager_def)
  have cs: "range_order (subscribers two_robots) []"
    unfolding two_robots_eq by (simp add: range_order_def NewManager_def)
  have cur: "robots two_robots ''1'' \<noteq> None \<and> currentID two_robots = ''1''"
    unfolding two_robots_eq by (simp add: NewManager_def)
  have ne: "(robots two_robots)(''1'' := None) \<noteq> Map.empty"
    unfolding two_robots_eq by (simp add: NewManager_def fun_eq_iff)
  from RemoveRobot_selection [OF reachable_two_robots ks cs] cur
  obtain m' where a: "RemoveRobot [''2''] [] ''1'' two_robots = (m', Inr ())"
    and b: "robots m' = (robots two_robots)(''1'' := None)"
    and c: "if robots m' = Map.empty then currentID m' = [] else currentID m' \<in> dom (robots m')"
    and d: "currentID two_robots \<noteq> [] \<longrightarrow> GetCurrentRobot two_robots = robots two_robots (currentID two_robots)"
    by blast
  from c b ne have "currentID m' \<in> dom ((robots two_robots)(''1'' := None))" by simp
  then have e: "currentID m' = ''2''"
    unfolding two_robots_eq by (simp add: NewManager_def split: if_splits)
  from d cur have f: "GetCurrentRobot two_robots = Some (NewRobot ''1'' ''/r1'' ''first'' ''10.0.0.1'' 9090)"
    unfolding two_robots_eq by (simp add: NewManager_def)
  from a b e f cur show ?thesis by blast
qed

subsection \<open>The two writers of a browser connection\<close>



















subsection \<open>TF frames and the cached map-to-odom transform\<close>

lemma parseTF_range_emit:
  "snd (snd (parseTF_range atan2 ts (c, d, e))) \<longleftrightarrow> e \<or> (\<exists>t \<in> set ts. is_odom_bfp t)"
  by (induction ts arbitrary: c d e) (auto simp: is_odom_bfp_def Let_def)

lemma parseTF_range_OnTF: "OnTF (fst (parseTF_range atan2 ts (c, d, e))) = OnTF c"
  by (induction ts arbitrary: c d e) (auto simp: Let_def)

lemma parseTF_range_global:
  "globalMapOdom (fst (parseTF_range atan2 ts (c, d, e)))
   = (if \<exists>t \<in> set ts. is_map_odom t
      then zero_TransformStamped
            \<lparr>ts_translation := transform_translation (last (filter is_map_odom ts)),
             ts_rotation := transform_rotation (last (filter is_map_odom ts))\<rparr>
      else globalMapOdom c)"
proof (induction ts arbitrary: c d e)
  case Nil
  then show ?case by simp
next
  case (Cons t ts)
  show ?case
  proof (cases "is_map_odom t")
    case True
    show ?thesis
      using True True [unfolded is_map_odom_def]
      by (simp add: Cons.IH filter_empty_conv)
  next
    case False
    show ?thesis
      using False False [unfolded is_map_odom_def]
      by (auto simp: Cons.IH Let_def)
  qed
qed

lemma parseTF_range_cache:
  "cached_MapOdom (fst (parseTF_range atan2 ts (c, d, e)))
   = (if \<exists>t \<in> set ts. is_map_odom t
      then (transform_translation (last (filter is_map_odom ts)),
            transform_rotation (last (filter is_map_odom ts)))
      else cached_MapOdom c)"
  by (simp add: cached_MapOdom_def parseTF_range_global zero_TransformStamped_def)

lemma parseTF_range_half:
  "(e \<longrightarrow> MapOdom_half d = cached_MapOdom c) \<Longrightarrow>
   snd (snd (parseTF_range atan2 ts (c, d, e))) \<Longrightarrow>
   MapOdom_half (fst (snd (parseTF_range atan2 ts (c, d, e))))
     = cached_MapOdom (fst (parseTF_range atan2 ts (c, d, e)))"
proof (induction ts arbitrary: c d e)
  case Nil
  then show ?case by simp
next
  case (Cons t ts)
  show ?case
  proof (cases "header_frame_id t = ''map'' \<and> child_frame_id t = ''odom''")
    case True
    have "MapOdom_half (d\<lparr>MapOdomTx := v3_X (transform_translation t),
                  MapOdomTy := v3_Y (transform_translation t),
                  MapOdomTz := v3_Z (transform_translation t),
                  MapOdomRx := q_X (transform_rotation t),
                  MapOdomRy := q_Y (transform_rotation t),
                  MapOdomRz := q_Z (transform_rotation t),
                  MapOdomRw := q_W (transform_rotation t)\<rparr>)
       = cached_MapOdom (c\<lparr>globalMapOdom := zero_TransformStamped
                \<lparr>ts_translation := transform_translation t,
                 ts_rotation := transform_rotation t\<rparr>\<rparr>)"
      by (simp add: MapOdom_half_def cached_MapOdom_def)
    then show ?thesis
      using True Cons.prems(2) by (auto intro!: Cons.IH)
  next
    case False
    note nm = False
    show ?thesis
    proof (cases "header_frame_id t = ''odom'' \<and> child_frame_id t = ''base_footprint''")
      case True
      then show ?thesis
        using nm Cons.prems(2)
        by (auto simp: Let_def  intro!: Cons.IH) (simp add: MapOdom_half_def cached_MapOdom_def)
    next
      case False
      then show ?thesis using nm Cons.prems by (auto intro!: Cons.IH)
    qed
  qed
qed

lemma parseTF_emits_half:
  assumes "\<exists>t \<in> set ts. is_odom_bfp t"
  shows "MapOdom_half (fst (snd (parseTF_range atan2 ts (c, zero_TFData, False))))
    = cached_MapOdom (fst (parseTF_range atan2 ts (c, zero_TFData, False)))"
  using assms by (intro parseTF_range_half) (simp_all add: parseTF_range_emit)

lemma parseTF_frame:
  assumes "OnTF c"
  shows "fst (parseTF atan2 (Some ts) c) = fst (parseTF_range atan2 ts (c, zero_TFData, False))"
    and "snd (parseTF atan2 (Some ts) c)
      = (if \<exists>t \<in> set ts. is_odom_bfp t
         then Some (fst (snd (parseTF_range atan2 ts (c, zero_TFData, False)))) else None)"
  using assms by (simp_all add: parseTF_def split_beta parseTF_range_emit)

lemma parseTF_frame_cache:
  assumes "OnTF c"
  shows "OnTF (fst (parseTF atan2 (Some ts) c))"
    and "cached_MapOdom (fst (parseTF atan2 (Some ts) c)) = latest_MapOdom (cached_MapOdom c) ts"
    and "snd (parseTF atan2 (Some ts) c) = None \<longleftrightarrow> \<not> (\<exists>t \<in> set ts. is_odom_bfp t)"
    and "snd (parseTF atan2 (Some ts) c) = Some d \<Longrightarrow>
      MapOdom_half d = latest_MapOdom (cached_MapOdom c) ts"
proof -
  show "OnTF (fst (parseTF atan2 (Some ts) c))"
    using assms by (simp add: parseTF_frame parseTF_range_OnTF)
  show k: "cached_MapOdom (fst (parseTF atan2 (Some ts) c))
      = latest_MapOdom (cached_MapOdom c) ts"
    using assms by (simp add: parseTF_frame parseTF_range_cache latest_MapOdom_def)
  show "snd (parseTF atan2 (Some ts) c) = None \<longleftrightarrow> \<not> (\<exists>t \<in> set ts. is_odom_bfp t)"
    using assms by (simp add: parseTF_frame)
  assume d: "snd (parseTF atan2 (Some ts) c) = Some d"
  then have e: "\<exists>t \<in> set ts. is_odom_bfp t"
    using assms by (simp add: parseTF_frame split: if_splits)
  with d have "d = fst (snd (parseTF_range atan2 ts (c, zero_TFData, False)))"
    using assms by (simp add: parseTF_frame)
  then have "MapOdom_half d = cached_MapOdom (fst (parseTF atan2 (Some ts) c))"
    using parseTF_emits_half [OF e, of atan2 c] assms by (simp add: parseTF_frame)
  with k show "MapOdom_half d = latest_MapOdom (cached_MapOdom c) ts" by simp
qed

lemma latest_MapOdom_append:
  "latest_MapOdom (latest_MapOdom x as) bs = latest_MapOdom x (as @ bs)"
proof (cases "\<exists>t \<in> set bs. is_map_odom t")
  case True
  then have "filter is_map_odom bs \<noteq> []" by (simp add: filter_empty_conv)
  then show ?thesis using True by (auto simp: latest_MapOdom_def)
next
  case False
  then have "filter is_map_odom bs = []" by (simp add: filter_empty_conv)
  then show ?thesis using False by (auto simp: latest_MapOdom_def)
qed

lemma parseTF_frames_append:
  "parseTF_frames atan2 (fs @ gs) c
   = (fst (parseTF_frames atan2 gs (fst (parseTF_frames atan2 fs c))),
      snd (parseTF_frames atan2 fs c)
        @ snd (parseTF_frames atan2 gs (fst (parseTF_frames atan2 fs c))))"
  by (induction fs arbitrary: c) (simp_all add: split_beta)

lemma parseTF_frames_one:
  "parseTF_frames atan2 [f] c
   = (fst (parseTF atan2 (Some f) c),
      (case snd (parseTF atan2 (Some f) c) of None \<Rightarrow> [] | Some d \<Rightarrow> [d]))"
  by (simp add: split_beta)

lemma emitting_snoc:
  "emitting (fs @ [f])
   = emitting fs @ (if \<exists>t \<in> set f. is_odom_bfp t then [length fs] else [])"
proof -
  have "filter (\<lambda>k. \<exists>t \<in> set ((fs @ [f]) ! k). is_odom_bfp t) [0..<length fs]
      = filter (\<lambda>k. \<exists>t \<in> set (fs ! k). is_odom_bfp t) [0..<length fs]"
    by (rule filter_cong) (simp_all add: nth_append)
  then show ?thesis by (simp add: emitting_def)
qed

lemma emitting_less: "k \<in> set (emitting fs) \<Longrightarrow> k < length fs"
  by (simp add: emitting_def)

lemma parseTF_frames_latest:
  assumes "OnTF c"
  shows "OnTF (fst (parseTF_frames atan2 fs c))
    \<and> cached_MapOdom (fst (parseTF_frames atan2 fs c))
        = latest_MapOdom (cached_MapOdom c) (concat fs)
    \<and> map MapOdom_half (snd (parseTF_frames atan2 fs c))
        = map (\<lambda>k. latest_MapOdom (cached_MapOdom c) (concat (take (Suc k) fs))) (emitting fs)"
proof (induction fs rule: rev_induct)
  case Nil
  show ?case using assms by (simp add: latest_MapOdom_def emitting_def)
next
  case (snoc f fs)
  let ?c1 = "fst (parseTF_frames atan2 fs c)"
  let ?x = "cached_MapOdom c"
  from snoc have on1: "OnTF ?c1"
    and k1: "cached_MapOdom ?c1 = latest_MapOdom ?x (concat fs)"
    and e1: "map MapOdom_half (snd (parseTF_frames atan2 fs c))
        = map (\<lambda>k. latest_MapOdom ?x (concat (take (Suc k) fs))) (emitting fs)"
    by simp_all
  have on2: "OnTF (fst (parseTF atan2 (Some f) ?c1))"
    by (rule parseTF_frame_cache(1) [OF on1])
  have k2: "cached_MapOdom (fst (parseTF atan2 (Some f) ?c1))
      = latest_MapOdom ?x (concat (fs @ [f]))"
    by (simp add: parseTF_frame_cache(2) [OF on1] k1 latest_MapOdom_append)
  have old: "map (\<lambda>k. latest_MapOdom ?x (concat (take (Suc k) (fs @ [f])))) (emitting fs)
      = map (\<lambda>k. latest_MapOdom ?x (concat (take (Suc k) fs))) (emitting fs)"
    by (rule map_cong) (auto dest: emitting_less)
  have new: "map MapOdom_half (case snd (parseTF atan2 (Some f) ?c1) of None \<Rightarrow> [] | Some d \<Rightarrow> [d])
      = map (\<lambda>k. latest_MapOdom ?x (concat (take (Suc k) (fs @ [f]))))
          (if \<exists>t \<in> set f. is_odom_bfp t then [length fs] else [])"
  proof (cases "snd (parseTF atan2 (Some f) ?c1)")
    case None
    then show ?thesis using parseTF_frame_cache(3) [OF on1, of atan2 f] by simp
  next
    case (Some d)
    then have "\<exists>t \<in> set f. is_odom_bfp t"
      using parseTF_frame_cache(3) [OF on1, of atan2 f] by simp
    moreover have "MapOdom_half d = latest_MapOdom ?x (concat (fs @ [f]))"
      using parseTF_frame_cache(4) [OF on1 Some] by (simp add: k1 latest_MapOdom_append)
    ultimately show ?thesis using Some by simp
  qed
  show ?case
    unfolding parseTF_frames_append parseTF_frames_one emitting_snoc
    using on2 k2 e1 old new by simp
qed

lemma latest_MapOdom_none: "\<forall>t \<in> set ts. \<not> is_map_odom t \<Longrightarrow> latest_MapOdom x ts = x"
  by (simp add: latest_MapOdom_def)

lemma latest_MapOdom_take:
  assumes "\<exists>t \<in> set f. is_map_odom t"
    and "\<forall>g \<in> set fs. \<forall>t \<in> set g. \<not> is_map_odom t"
  shows "latest_MapOdom x (concat (take (Suc k) (f # fs))) = latest_MapOdom x f"
proof -
  have "\<forall>t \<in> set (concat (take k fs)). \<not> is_map_odom t"
    using assms(2) by (auto dest: in_set_takeD)
  then have "latest_MapOdom (latest_MapOdom x f) (concat (take k fs)) = latest_MapOdom x f"
    by (rule latest_MapOdom_none)
  then show ?thesis by (simp add: latest_MapOdom_append)
qed

text \<open>
  Claim C8. On a link whose TF callback is set, for every TF frame and every sequence of
  TF frames, with \<^verbatim>\<open>math.Atan2\<close> any function:
  \<^item> \<^verbatim>\<open>parseTF\<close> of a frame leaves as cached map-to-odom transform the last map-to-odom
    transform of the frame, and the cache as it was when the frame has none, whether or not
    the frame holds an odom-to-base_footprint transform; it emits an event exactly when
    the frame holds an odom-to-base_footprint transform, and the map-to-odom half of the
    event is the cached transform;
  \<^item> over a sequence of frames, one event is emitted for each frame that holds an
    odom-to-base_footprint transform, in order, and the map-to-odom half of the event of
    the frame with index \<open>k\<close> is the last map-to-odom transform among the frames up to and
    including \<open>k\<close>, and the cache the sequence started from when there is none;
  \<^item> so a map-to-odom transform that arrives in a frame, with or without an
    odom-to-base_footprint transform beside it, is carried by the event of every later
    frame until the next map-to-odom transform arrives;
  \<^item> and over frames without a map-to-odom transform the cache is unchanged and, when it is
    still the zero value (no map-to-odom transform was ever seen), each event carries the
    all-zero transform.
\<close>

theorem parseTF_composite:
  assumes "OnTF c"
  shows "(\<forall>ts. \<exists>c' ev. parseTF atan2 (Some ts) c = (c', ev)
        \<and> OnTF c'
        \<and> cached_MapOdom c' = latest_MapOdom (cached_MapOdom c) ts
        \<and> (ev = None \<longleftrightarrow> \<not> (\<exists>t \<in> set ts. is_odom_bfp t))
        \<and> (\<forall>d. ev = Some d \<longrightarrow> MapOdom_half d = cached_MapOdom c'))
    \<and> (\<forall>fs. \<exists>c' evs. parseTF_frames atan2 fs c = (c', evs)
        \<and> cached_MapOdom c' = latest_MapOdom (cached_MapOdom c) (concat fs)
        \<and> map MapOdom_half evs
            = map (\<lambda>k. latest_MapOdom (cached_MapOdom c) (concat (take (Suc k) fs)))
                (emitting fs))
    \<and> (\<forall>f fs. (\<exists>t \<in> set f. is_map_odom t)
          \<and> (\<forall>g \<in> set fs. (\<exists>t \<in> set g. is_odom_bfp t) \<and> (\<forall>t \<in> set g. \<not> is_map_odom t)) \<longrightarrow>
        (\<exists>c' evs. parseTF_frames atan2 (f # fs) c = (c', evs)
          \<and> cached_MapOdom c' = (transform_translation (last (filter is_map_odom f)),
                                  transform_rotation (last (filter is_map_odom f)))
          \<and> length evs = length fs + (if \<exists>t \<in> set f. is_odom_bfp t then 1 else 0)
          \<and> (\<forall>d \<in> set evs. MapOdom_half d
                = (transform_translation (last (filter is_map_odom f)),
                   transform_rotation (last (filter is_map_odom f))))))
    \<and> (\<forall>fs. (\<forall>f \<in> set fs. (\<exists>t \<in> set f. is_odom_bfp t) \<and> (\<forall>t \<in> set f. \<not> is_map_odom t)) \<longrightarrow>
        (\<exists>c' evs. parseTF_frames atan2 fs c = (c', evs)
          \<and> length evs = length fs
          \<and> cached_MapOdom c' = cached_MapOdom c
          \<and> (\<forall>d \<in> set evs. MapOdom_half d = cached_MapOdom c
                \<and> (globalMapOdom c = zero_TransformStamped \<longrightarrow>
                      MapOdom_half d = (zero_Vector3, zero_Quaternion)))))"
proof (intro conjI allI impI)
  fix ts
  let ?r = "parseTF atan2 (Some ts) c"
  have F: "OnTF (fst ?r)
        \<and> cached_MapOdom (fst ?r) = latest_MapOdom (cached_MapOdom c) ts
        \<and> (snd ?r = None \<longleftrightarrow> \<not> (\<exists>t \<in> set ts. is_odom_bfp t))
        \<and> (\<forall>d. snd ?r = Some d \<longrightarrow> MapOdom_half d = cached_MapOdom (fst ?r))"
    using parseTF_frame_cache [OF assms, of atan2 ts] by simp
  show "\<exists>c' ev. parseTF atan2 (Some ts) c = (c', ev)
        \<and> OnTF c'
        \<and> cached_MapOdom c' = latest_MapOdom (cached_MapOdom c) ts
        \<and> (ev = None \<longleftrightarrow> \<not> (\<exists>t \<in> set ts. is_odom_bfp t))
        \<and> (\<forall>d. ev = Some d \<longrightarrow> MapOdom_half d = cached_MapOdom c')"
    apply (rule exI [of _ "fst ?r"])
    apply (rule exI [of _ "snd ?r"])
    apply (rule conjI)
     apply (rule prod.collapse [symmetric])
    apply (rule F)
    done
next
  fix fs
  let ?r = "parseTF_frames atan2 fs c"
  have F: "cached_MapOdom (fst ?r) = latest_MapOdom (cached_MapOdom c) (concat fs)
        \<and> map MapOdom_half (snd ?r)
            = map (\<lambda>k. latest_MapOdom (cached_MapOdom c) (concat (take (Suc k) fs)))
                (emitting fs)"
    using parseTF_frames_latest [OF assms, of atan2 fs] by simp
  show "\<exists>c' evs. parseTF_frames atan2 fs c = (c', evs)
        \<and> cached_MapOdom c' = latest_MapOdom (cached_MapOdom c) (concat fs)
        \<and> map MapOdom_half evs
            = map (\<lambda>k. latest_MapOdom (cached_MapOdom c) (concat (take (Suc k) fs)))
                (emitting fs)"
    apply (rule exI [of _ "fst ?r"])
    apply (rule exI [of _ "snd ?r"])
    apply (rule conjI)
     apply (rule prod.collapse [symmetric])
    apply (rule F)
    done
next
  fix f fs
  assume h: "(\<exists>t \<in> set f. is_map_odom t)
          \<and> (\<forall>g \<in> set fs. (\<exists>t \<in> set g. is_odom_bfp t) \<and> (\<forall>t \<in> set g. \<not> is_map_odom t))"
  let ?r = "parseTF_frames atan2 (f # fs) c"
  let ?m = "(transform_translation (last (filter is_map_odom f)),
             transform_rotation (last (filter is_map_odom f)))"
  let ?x = "cached_MapOdom c"
  from h have hf: "\<exists>t \<in> set f. is_map_odom t"
    and hg: "\<forall>g \<in> set fs. \<forall>t \<in> set g. \<not> is_map_odom t"
    and hb: "\<forall>g \<in> set fs. \<exists>t \<in> set g. is_odom_bfp t"
    by simp_all
  have lf: "latest_MapOdom ?x f = ?m"
    using hf by (simp add: latest_MapOdom_def)
  note L = parseTF_frames_latest [OF assms, of atan2 "f # fs"]
  have tk: "latest_MapOdom ?x (concat (take (Suc k) (f # fs))) = ?m" for k
    using latest_MapOdom_take [OF hf hg, of ?x k] lf by simp
  have whole: "latest_MapOdom ?x (concat (f # fs)) = ?m"
    using tk [of "length fs"] by simp
  have halves: "map MapOdom_half (snd ?r) = map (\<lambda>k. ?m) (emitting (f # fs))"
    using L tk by simp
  have em: "emitting (f # fs)
      = (if \<exists>t \<in> set f. is_odom_bfp t then [0] else []) @ [Suc 0..<Suc (length fs)]"
  proof -
    have "filter (\<lambda>k. \<exists>t \<in> set ((f # fs) ! k). is_odom_bfp t) [Suc 0..<Suc (length fs)]
        = [Suc 0..<Suc (length fs)]"
      using hb by (auto simp: filter_id_conv nth_Cons split: nat.splits)
    then show ?thesis
      by (cases "\<exists>t \<in> set f. is_odom_bfp t")
        (simp_all add: emitting_def upt_conv_Cons del: upt_Suc)
  qed
  have le: "length (emitting (f # fs))
      = length fs + (if \<exists>t \<in> set f. is_odom_bfp t then 1 else 0)"
    unfolding em by (simp del: upt_Suc)
  have "length (map MapOdom_half (snd ?r)) = length (map (\<lambda>k. ?m) (emitting (f # fs)))"
    by (simp only: halves)
  then have len: "length (snd ?r)
      = length fs + (if \<exists>t \<in> set f. is_odom_bfp t then 1 else 0)"
    using le by (simp only: length_map)
  have each: "\<forall>d \<in> set (snd ?r). MapOdom_half d = ?m"
  proof
    fix d assume "d \<in> set (snd ?r)"
    then have "MapOdom_half d \<in> set (map MapOdom_half (snd ?r))" by simp
    then show "MapOdom_half d = ?m" unfolding halves by auto
  qed
  have F: "cached_MapOdom (fst ?r) = ?m
      \<and> length (snd ?r) = length fs + (if \<exists>t \<in> set f. is_odom_bfp t then 1 else 0)
      \<and> (\<forall>d \<in> set (snd ?r). MapOdom_half d = ?m)"
    using L whole len each by simp
  show "\<exists>c' evs. parseTF_frames atan2 (f # fs) c = (c', evs)
          \<and> cached_MapOdom c' = ?m
          \<and> length evs = length fs + (if \<exists>t \<in> set f. is_odom_bfp t then 1 else 0)
          \<and> (\<forall>d \<in> set evs. MapOdom_half d = ?m)"
    apply (rule exI [of _ "fst ?r"])
    apply (rule exI [of _ "snd ?r"])
    apply (rule conjI)
     apply (rule prod.collapse [symmetric])
    apply (rule F)
    done
next
  fix fs
  assume h: "\<forall>f \<in> set fs. (\<exists>t \<in> set f. is_odom_bfp t) \<and> (\<forall>t \<in> set f. \<not> is_map_odom t)"
  let ?r = "parseTF_frames atan2 fs c"
  let ?x = "cached_MapOdom c"
  have z: "?x = (zero_Vector3, zero_Quaternion)"
    if "globalMapOdom c = zero_TransformStamped"
    using that by (simp add: cached_MapOdom_def zero_TransformStamped_def)
  note L = parseTF_frames_latest [OF assms, of atan2 fs]
  have nm: "\<forall>t \<in> set (concat (take k fs)). \<not> is_map_odom t" for k
    using h by (auto dest: in_set_takeD)
  have tk: "latest_MapOdom ?x (concat (take k fs)) = ?x" for k
    by (rule latest_MapOdom_none [OF nm])
  have whole: "latest_MapOdom ?x (concat fs) = ?x"
    using tk [of "length fs"] by simp
  have em: "emitting fs = [0..<length fs]"
    using h by (auto simp: emitting_def filter_id_conv)
  have halves: "map MapOdom_half (snd ?r) = map (\<lambda>k. ?x) [0..<length fs]"
    using L tk em by simp
  have "length (map MapOdom_half (snd ?r)) = length (map (\<lambda>k. ?x) [0..<length fs])"
    by (simp only: halves)
  then have len: "length (snd ?r) = length fs"
    by (simp only: length_map length_upt diff_zero)
  have each: "\<forall>d \<in> set (snd ?r). MapOdom_half d = ?x"
  proof
    fix d assume "d \<in> set (snd ?r)"
    then have "MapOdom_half d \<in> set (map MapOdom_half (snd ?r))" by simp
    then show "MapOdom_half d = ?x" unfolding halves by auto
  qed
  have F: "length (snd ?r) = length fs
      \<and> cached_MapOdom (fst ?r) = ?x
      \<and> (\<forall>d \<in> set (snd ?r). MapOdom_half d = ?x
            \<and> (globalMapOdom c = zero_TransformStamped \<longrightarrow>
                  MapOdom_half d = (zero_Vector3, zero_Quaternion)))"
    using L whole len each z by simp
  show "\<exists>c' evs. parseTF_frames atan2 fs c = (c', evs)
          \<and> length evs = length fs
          \<and> cached_MapOdom c' = cached_MapOdom c
          \<and> (\<forall>d \<in> set evs. MapOdom_half d = cached_MapOdom c
                \<and> (globalMapOdom c = zero_TransformStamped \<longrightarrow>
                      MapOdom_half d = (zero_Vector3, zero_Quaternion)))"
    apply (rule exI [of _ "fst ?r"])
    apply (rule exI [of _ "snd ?r"])
    apply (rule conjI)
     apply (rule prod.collapse [symmetric])
    apply (rule F)
    done
qed

text \<open>
  The theorem at three frames on a new link with the TF callback set: an
  odom-to-base_footprint frame before any map-to-odom transform gives an event with the
  all-zero map-to-odom half; a frame that holds a map-to-odom transform alone gives no
  event; and the odom-to-base_footprint frame after it gives an event that carries that
  transform.
\<close>

theorem parseTF_composite_witness:
  "\<exists>c' d1 d2. parseTF_frames (\<lambda>y x. 0) [[odom_bfp_example], [map_odom_example], [odom_bfp_example]]
        ((NewClient ''/r1'' ''10.0.0.1'' 9090)\<lparr>OnTF := True\<rparr>) = (c', [d1, d2])
     \<and> MapOdom_half d1 = (zero_Vector3, zero_Quaternion)
     \<and> MapOdom_half d2 = (\<lparr>v3_X = 5, v3_Y = 6, v3_Z = 0\<rparr>, \<lparr>q_X = 0, q_Y = 0, q_Z = 1, q_W = 0\<rparr>)
     \<and> cached_MapOdom c' = (\<lparr>v3_X = 5, v3_Y = 6, v3_Z = 0\<rparr>, \<lparr>q_X = 0, q_Y = 0, q_Z = 1, q_W = 0\<rparr>)"
proof -
  let ?c = "(NewClient ''/r1'' ''10.0.0.1'' 9090)\<lparr>OnTF := True\<rparr>"
  let ?fs = "[[odom_bfp_example], [map_odom_example], [odom_bfp_example]]"
  let ?m = "(\<lparr>v3_X = 5, v3_Y = 6, v3_Z = 0\<rparr>, \<lparr>q_X = 0, q_Y = 0, q_Z = 1, q_W = 0\<rparr>)"
  have on: "OnTF ?c" by simp
  have cl: "is_odom_bfp odom_bfp_example" "\<not> is_map_odom odom_bfp_example"
      "is_map_odom map_odom_example" "\<not> is_odom_bfp map_odom_example"
    by (simp_all add: is_odom_bfp_def is_map_odom_def odom_bfp_example_def map_odom_example_def)
  have em: "emitting ?fs = [0, 2]"
    by (simp add: emitting_def cl upt_rec [of 0] upt_rec [of 1] upt_rec [of 2] numeral_3_eq_3)
  have x: "cached_MapOdom ?c = (zero_Vector3, zero_Quaternion)"
    by (simp add: cached_MapOdom_def NewClient_def zero_TransformStamped_def)
  have l0: "latest_MapOdom (cached_MapOdom ?c) (concat (take (Suc 0) ?fs))
      = (zero_Vector3, zero_Quaternion)"
    by (simp add: latest_MapOdom_def cl x)
  have mt: "transform_translation map_odom_example = \<lparr>v3_X = 5, v3_Y = 6, v3_Z = 0\<rparr>"
      "transform_rotation map_odom_example = \<lparr>q_X = 0, q_Y = 0, q_Z = 1, q_W = 0\<rparr>"
    by (simp_all add: map_odom_example_def)
  have l2: "latest_MapOdom (cached_MapOdom ?c) (concat (take (Suc 2) ?fs)) = ?m"
    by (simp add: latest_MapOdom_def cl mt)
  have lw: "latest_MapOdom (cached_MapOdom ?c) (concat ?fs) = ?m"
    by (simp add: latest_MapOdom_def cl mt)
  from parseTF_composite [OF on, of "\<lambda>y x. 0", THEN conjunct2, THEN conjunct1, rule_format,
      of ?fs]
  obtain c' evs where r: "parseTF_frames (\<lambda>y x. 0) ?fs ?c = (c', evs)"
    and k: "cached_MapOdom c' = latest_MapOdom (cached_MapOdom ?c) (concat ?fs)"
    and h: "map MapOdom_half evs
        = map (\<lambda>k. latest_MapOdom (cached_MapOdom ?c) (concat (take (Suc k) ?fs)))
            (emitting ?fs)"
    by blast
  from h have h': "map MapOdom_half evs = [(zero_Vector3, zero_Quaternion), ?m]"
    unfolding em using l0 l2 by simp
  then obtain d1 d2 where evs: "evs = [d1, d2]"
    and "MapOdom_half d1 = (zero_Vector3, zero_Quaternion)" "MapOdom_half d2 = ?m"
    by (auto simp: map_eq_Cons_conv)
  with r k lw show ?thesis by auto
qed

subsection \<open>The command-publish tick\<close>

lemma float_eq_refl: "finite64 a \<Longrightarrow> float_eq a a"
  by (cases a) (simp_all add: float_eq_def)

lemma float_eq_NaN: "\<not> float_eq NaN b" "\<not> float_eq a NaN"
  by (simp_all add: float_eq_def)

lemma cmd_equal_refl: "cmd_finite t \<Longrightarrow> cmd_equal t t"
  by (simp add: cmd_equal_def cmd_finite_def float_eq_refl)

lemma cmd_equal_NaN:
  "LinearX t = NaN \<or> LinearY t = NaN \<or> AngularZ t = NaN \<Longrightarrow> \<not> cmd_equal t u"
  by (auto simp: cmd_equal_def float_eq_NaN)

lemma cmd_frame_NaN:
  "LinearX t = NaN \<or> LinearY t = NaN \<or> AngularZ t = NaN \<Longrightarrow> cmd_frame topic t = NilFrame"
  by (auto simp: cmd_frame_def cmd_finite_def)

lemma tick_idle:
  "\<not> connected c \<or> \<not> cmdVelEnabled c \<or> topicCmdVel c = [] \<Longrightarrow> publishCmdVelTick wr c = c"
  by (auto simp: publishCmdVelTick_def tick_snapshot_def tick_publish_def)

lemma tick_active:
  assumes "connected c" and "cmdVelEnabled c" and "topicCmdVel c \<noteq> []"
  shows "publishCmdVelTick wr c =
    (if cmd_equal (desiredTwist c) (lastTwist c) then c
     else (fst (send (cmd_frame (topicCmdVel c) (desiredTwist c)) wr c))
            \<lparr>lastTwist := desiredTwist c\<rparr>)"
  using assms by (simp add: publishCmdVelTick_def tick_snapshot_def tick_publish_def Let_def)

lemma tick_changed:
  assumes "connected c" and "cmdVelEnabled c" and "topicCmdVel c \<noteq> []" and "conn c = Some fs"
    and "\<not> cmd_equal (desiredTwist c) (lastTwist c)"
  shows "publishCmdVelTick True c =
    c\<lparr>conn := Some (fs @ [cmd_frame (topicCmdVel c) (desiredTwist c)]),
      lastTwist := desiredTwist c\<rparr>"
  using assms by (simp add: tick_active send_def)

lemma cmd_link_eq:
  "cmd_link = (NewClient ''/r1'' ''10.0.0.1'' 9090)
     \<lparr>conn := Some [SubscribeMsg ''/r1/diff_controller/cmd_vel_unstamped'' ''geometry_msgs/msg/Twist''],
      connected := True, topicCmdVel := ''/r1/diff_controller/cmd_vel_unstamped'',
      cmdVelEnabled := True\<rparr>"
  by (simp add: cmd_link_def SetCmdVelEnabled_def SubscribeCmdVel_def Connect_def NewClient_def
      send_def Let_def)

text \<open>
  A desired twist with a NaN in a compared field is unequal, by \<^verbatim>\<open>==\<close>, to every last-sent
  twist, itself included: on a connected, enabled link with a command topic and a working
  socket every tick writes a frame, which is the nil slice since the message cannot be
  marshalled, and the next tick finds the link in the same condition.
\<close>

lemma tick_NaN:
  assumes "connected c" and "cmdVelEnabled c" and "topicCmdVel c \<noteq> []" and "conn c = Some fs"
    and "LinearX (desiredTwist c) = NaN \<or> LinearY (desiredTwist c) = NaN
      \<or> AngularZ (desiredTwist c) = NaN"
  shows "publishCmdVelTick True c
      = c\<lparr>conn := Some (fs @ [NilFrame]), lastTwist := desiredTwist c\<rparr>"
    and "publishCmdVelTick True (publishCmdVelTick True c)
      = c\<lparr>conn := Some (fs @ [NilFrame, NilFrame]), lastTwist := desiredTwist c\<rparr>"
proof -
  have ne: "\<not> cmd_equal (desiredTwist c) u" for u
    by (rule cmd_equal_NaN [OF assms(5)])
  have fr: "cmd_frame topic (desiredTwist c) = NilFrame" for topic
    by (rule cmd_frame_NaN [OF assms(5)])
  show one: "publishCmdVelTick True c
      = c\<lparr>conn := Some (fs @ [NilFrame]), lastTwist := desiredTwist c\<rparr>"
    using tick_changed [OF assms(1-4) ne] by (simp add: fr)
  show "publishCmdVelTick True (publishCmdVelTick True c)
      = c\<lparr>conn := Some (fs @ [NilFrame, NilFrame]), lastTwist := desiredTwist c\<rparr>"
    unfolding one
    using assms(1-3) ne
    by (subst tick_changed [where fs = "fs @ [NilFrame]"]) (simp_all add: fr)
qed

lemma tick_NaN_example:
  "conn (publishCmdVelTick True (publishCmdVelTick True
      (SetDesiredCmdVel twist_NaN (SetDesiredCmdVel twist_NaN cmd_link))))
   = Some [SubscribeMsg ''/r1/diff_controller/cmd_vel_unstamped'' ''geometry_msgs/msg/Twist'',
           NilFrame, NilFrame]"
  by (simp add: cmd_link_eq SetDesiredCmdVel_def publishCmdVelTick_def tick_snapshot_def
      tick_publish_def cmd_equal_def cmd_frame_def cmd_finite_def float_eq_def send_def
      NewClient_def zero_TwistData_def twist_NaN_def Let_def)

text \<open>
  Claim C2, as the claim states it, fails: on a connected, enabled link with a command
  topic, a desired twist that differs from the last-sent twist in \<^verbatim>\<open>LinearZ\<close> only is not
  published, and last-sent is not updated; and two identical \<^verbatim>\<open>SetDesiredCmdVel\<close> calls with
  the value last sent produce no frame at the next tick.
\<close>

theorem publishCmdVelTick_counterexample:
  "desiredTwist (SetDesiredCmdVel (zero_TwistData\<lparr>LinearZ := Finite 1\<rparr>) cmd_link)
     \<noteq> lastTwist (SetDesiredCmdVel (zero_TwistData\<lparr>LinearZ := Finite 1\<rparr>) cmd_link)
   \<and> connected (SetDesiredCmdVel (zero_TwistData\<lparr>LinearZ := Finite 1\<rparr>) cmd_link)
   \<and> cmdVelEnabled (SetDesiredCmdVel (zero_TwistData\<lparr>LinearZ := Finite 1\<rparr>) cmd_link)
   \<and> publishCmdVelTick True (SetDesiredCmdVel (zero_TwistData\<lparr>LinearZ := Finite 1\<rparr>) cmd_link)
     = SetDesiredCmdVel (zero_TwistData\<lparr>LinearZ := Finite 1\<rparr>) cmd_link
   \<and> conn (publishCmdVelTick True
       (SetDesiredCmdVel zero_TwistData (SetDesiredCmdVel zero_TwistData cmd_link)))
     = conn cmd_link"
  by (simp add: cmd_link_eq SetDesiredCmdVel_def publishCmdVelTick_def tick_snapshot_def
      tick_publish_def cmd_equal_def float_eq_def NewClient_def zero_TwistData_def)

text \<open>
  Claim C2, amended. A tick changes nothing when the link is disconnected, publishing is
  disabled or the command topic is empty. Otherwise it compares the desired twist with the
  last-sent twist by \<^verbatim>\<open>==\<close> on \<^verbatim>\<open>LinearX\<close>, \<^verbatim>\<open>LinearY\<close> and \<^verbatim>\<open>AngularZ\<close> only; when the three
  comparisons hold it changes nothing, and otherwise it hands one frame to \<^verbatim>\<open>send\<close> and sets
  last-sent to the desired twist, whether or not the write succeeds. The frame is a publish
  frame that carries the three values when they are finite. Hence, on such a link with a
  working socket, two identical \<^verbatim>\<open>SetDesiredCmdVel\<close> calls with a value whose three fields
  are finite and that differs from last-sent in one of them put exactly one frame on the
  socket at the next tick and none at the tick after, and a later value that differs from
  it in one of the three fields puts exactly one more. Outside these values: the frame of
  a twist with a NaN or an infinity in one of the three fields is the nil slice, and a
  desired twist with a NaN in one of them is sent again on every tick.
\<close>

theorem publishCmdVelTick_on_change:
  "(\<not> connected c \<or> \<not> cmdVelEnabled c \<or> topicCmdVel c = [] \<longrightarrow> publishCmdVelTick wr c = c)
   \<and> (connected c \<and> cmdVelEnabled c \<and> topicCmdVel c \<noteq> [] \<longrightarrow>
        publishCmdVelTick wr c =
          (if cmd_equal (desiredTwist c) (lastTwist c) then c
           else (fst (send (cmd_frame (topicCmdVel c) (desiredTwist c)) wr c))
                  \<lparr>lastTwist := desiredTwist c\<rparr>))
   \<and> (\<forall>a b. cmd_finite a \<and> cmd_finite b \<longrightarrow>
        (cmd_equal a b \<longleftrightarrow>
           LinearX a = LinearX b \<and> LinearY a = LinearY b \<and> AngularZ a = AngularZ b))
   \<and> (\<forall>topic a. cmd_finite a \<longrightarrow>
        cmd_frame topic a = PublishMsg topic
          \<lparr>v3_X = the_real (LinearX a), v3_Y = the_real (LinearY a), v3_Z = 0\<rparr>
          \<lparr>v3_X = 0, v3_Y = 0, v3_Z = the_real (AngularZ a)\<rparr>)
   \<and> (\<forall>topic a. \<not> cmd_finite a \<longrightarrow> cmd_frame topic a = NilFrame)
   \<and> (connected c \<and> cmdVelEnabled c \<and> topicCmdVel c \<noteq> [] \<and> conn c = Some fs
        \<and> (LinearX (desiredTwist c) = NaN \<or> LinearY (desiredTwist c) = NaN
             \<or> AngularZ (desiredTwist c) = NaN) \<longrightarrow>
        publishCmdVelTick True c
          = c\<lparr>conn := Some (fs @ [NilFrame]), lastTwist := desiredTwist c\<rparr>
        \<and> publishCmdVelTick True (publishCmdVelTick True c)
          = c\<lparr>conn := Some (fs @ [NilFrame, NilFrame]), lastTwist := desiredTwist c\<rparr>)
   \<and> (connected c \<and> cmdVelEnabled c \<and> topicCmdVel c \<noteq> [] \<and> conn c = Some fs
        \<and> cmd_finite t \<and> \<not> cmd_equal t (lastTwist c) \<and> \<not> cmd_equal t' t \<longrightarrow>
        conn (publishCmdVelTick True (SetDesiredCmdVel t (SetDesiredCmdVel t c)))
          = Some (fs @ [cmd_frame (topicCmdVel c) t])
        \<and> publishCmdVelTick True
            (publishCmdVelTick True (SetDesiredCmdVel t (SetDesiredCmdVel t c)))
          = publishCmdVelTick True (SetDesiredCmdVel t (SetDesiredCmdVel t c))
        \<and> conn (publishCmdVelTick True (SetDesiredCmdVel t'
            (publishCmdVelTick True (SetDesiredCmdVel t (SetDesiredCmdVel t c)))))
          = Some (fs @ [cmd_frame (topicCmdVel c) t, cmd_frame (topicCmdVel c) t']))"
proof (intro conjI impI allI)
  show "publishCmdVelTick wr c = c"
    if "\<not> connected c \<or> \<not> cmdVelEnabled c \<or> topicCmdVel c = []"
    using that by (rule tick_idle)
  show "publishCmdVelTick wr c =
          (if cmd_equal (desiredTwist c) (lastTwist c) then c
           else (fst (send (cmd_frame (topicCmdVel c) (desiredTwist c)) wr c))
                  \<lparr>lastTwist := desiredTwist c\<rparr>)"
    if "connected c \<and> cmdVelEnabled c \<and> topicCmdVel c \<noteq> []"
    using that by (simp add: tick_active)
  show "cmd_equal a b \<longleftrightarrow>
           LinearX a = LinearX b \<and> LinearY a = LinearY b \<and> AngularZ a = AngularZ b"
    if "cmd_finite a \<and> cmd_finite b" for a b
    using that by (auto simp: cmd_equal_def cmd_finite_def float_eq_def)
  show "cmd_frame topic a = PublishMsg topic
          \<lparr>v3_X = the_real (LinearX a), v3_Y = the_real (LinearY a), v3_Z = 0\<rparr>
          \<lparr>v3_X = 0, v3_Y = 0, v3_Z = the_real (AngularZ a)\<rparr>"
    if "cmd_finite a" for topic a
    using that by (simp add: cmd_frame_def)
  show "cmd_frame topic a = NilFrame" if "\<not> cmd_finite a" for topic a
    using that by (simp add: cmd_frame_def)
next
  assume n: "connected c \<and> cmdVelEnabled c \<and> topicCmdVel c \<noteq> [] \<and> conn c = Some fs
        \<and> (LinearX (desiredTwist c) = NaN \<or> LinearY (desiredTwist c) = NaN
             \<or> AngularZ (desiredTwist c) = NaN)"
  then have n1: "connected c" and n2: "cmdVelEnabled c" and n3: "topicCmdVel c \<noteq> []"
    and n4: "conn c = Some fs"
    and n5: "LinearX (desiredTwist c) = NaN \<or> LinearY (desiredTwist c) = NaN
             \<or> AngularZ (desiredTwist c) = NaN"
    by simp_all
  show "publishCmdVelTick True c
          = c\<lparr>conn := Some (fs @ [NilFrame]), lastTwist := desiredTwist c\<rparr>"
    by (rule tick_NaN(1) [OF n1 n2 n3 n4 n5])
  show "publishCmdVelTick True (publishCmdVelTick True c)
          = c\<lparr>conn := Some (fs @ [NilFrame, NilFrame]), lastTwist := desiredTwist c\<rparr>"
    by (rule tick_NaN(2) [OF n1 n2 n3 n4 n5])
next
  assume h: "connected c \<and> cmdVelEnabled c \<and> topicCmdVel c \<noteq> [] \<and> conn c = Some fs
        \<and> cmd_finite t \<and> \<not> cmd_equal t (lastTwist c) \<and> \<not> cmd_equal t' t"
  define c1 where "c1 = publishCmdVelTick True (SetDesiredCmdVel t (SetDesiredCmdVel t c))"
  have c1: "c1 = c\<lparr>desiredTwist := t, conn := Some (fs @ [cmd_frame (topicCmdVel c) t]),
      lastTwist := t\<rparr>"
    unfolding c1_def using h
    by (subst tick_changed [where fs = fs]) (simp_all add: SetDesiredCmdVel_def)
  show "conn (publishCmdVelTick True (SetDesiredCmdVel t (SetDesiredCmdVel t c)))
          = Some (fs @ [cmd_frame (topicCmdVel c) t])"
    unfolding c1_def [symmetric] by (simp add: c1)
  show "publishCmdVelTick True
            (publishCmdVelTick True (SetDesiredCmdVel t (SetDesiredCmdVel t c)))
          = publishCmdVelTick True (SetDesiredCmdVel t (SetDesiredCmdVel t c))"
    unfolding c1_def [symmetric] using h by (simp add: c1 tick_active cmd_equal_refl)
  show "conn (publishCmdVelTick True (SetDesiredCmdVel t'
            (publishCmdVelTick True (SetDesiredCmdVel t (SetDesiredCmdVel t c)))))
          = Some (fs @ [cmd_frame (topicCmdVel c) t, cmd_frame (topicCmdVel c) t'])"
    unfolding c1_def [symmetric] using h
    by (subst tick_changed [where fs = "fs @ [cmd_frame (topicCmdVel c) t]"])
       (simp_all add: c1 SetDesiredCmdVel_def)
qed

text \<open>
  The theorem on the link \<open>cmd_link\<close>: the forward twist, set twice, puts one publish
  frame on the socket, the turning twist set afterwards one more; and on a link that is
  not connected the tick changes nothing.
\<close>

theorem publishCmdVelTick_on_change_witness:
  "conn (publishCmdVelTick True
      (SetDesiredCmdVel twist_forward (SetDesiredCmdVel twist_forward cmd_link)))
   = Some [SubscribeMsg ''/r1/diff_controller/cmd_vel_unstamped'' ''geometry_msgs/msg/Twist'',
           PublishMsg ''/r1/diff_controller/cmd_vel_unstamped''
             \<lparr>v3_X = 1, v3_Y = 0, v3_Z = 0\<rparr> \<lparr>v3_X = 0, v3_Y = 0, v3_Z = 0\<rparr>]
   \<and> publishCmdVelTick True (publishCmdVelTick True
      (SetDesiredCmdVel twist_forward (SetDesiredCmdVel twist_forward cmd_link)))
     = publishCmdVelTick True
      (SetDesiredCmdVel twist_forward (SetDesiredCmdVel twist_forward cmd_link))
   \<and> conn (publishCmdVelTick True (SetDesiredCmdVel twist_turn
        (publishCmdVelTick True
          (SetDesiredCmdVel twist_forward (SetDesiredCmdVel twist_forward cmd_link)))))
   = Some [SubscribeMsg ''/r1/diff_controller/cmd_vel_unstamped'' ''geometry_msgs/msg/Twist'',
           PublishMsg ''/r1/diff_controller/cmd_vel_unstamped''
             \<lparr>v3_X = 1, v3_Y = 0, v3_Z = 0\<rparr> \<lparr>v3_X = 0, v3_Y = 0, v3_Z = 0\<rparr>,
           PublishMsg ''/r1/diff_controller/cmd_vel_unstamped''
             \<lparr>v3_X = 0, v3_Y = 0, v3_Z = 0\<rparr> \<lparr>v3_X = 0, v3_Y = 0, v3_Z = 2\<rparr>]
   \<and> publishCmdVelTick True ((NewClient ''/r1'' ''10.0.0.1'' 9090)\<lparr>desiredTwist := twist_forward\<rparr>)
     = (NewClient ''/r1'' ''10.0.0.1'' 9090)\<lparr>desiredTwist := twist_forward\<rparr>"
proof -
  let ?sub = "SubscribeMsg ''/r1/diff_controller/cmd_vel_unstamped'' ''geometry_msgs/msg/Twist''"
  have pre: "connected cmd_link \<and> cmdVelEnabled cmd_link \<and> topicCmdVel cmd_link \<noteq> []
      \<and> conn cmd_link = Some [?sub]
      \<and> cmd_finite twist_forward
      \<and> \<not> cmd_equal twist_forward (lastTwist cmd_link)
      \<and> \<not> cmd_equal twist_turn twist_forward"
    by (simp add: cmd_link_eq NewClient_def cmd_equal_def cmd_finite_def float_eq_def
        zero_TwistData_def twist_forward_def twist_turn_def)
  have t: "topicCmdVel cmd_link = ''/r1/diff_controller/cmd_vel_unstamped''"
    by (simp add: cmd_link_eq)
  have fr: "cmd_frame ''/r1/diff_controller/cmd_vel_unstamped'' twist_forward
      = PublishMsg ''/r1/diff_controller/cmd_vel_unstamped''
             \<lparr>v3_X = 1, v3_Y = 0, v3_Z = 0\<rparr> \<lparr>v3_X = 0, v3_Y = 0, v3_Z = 0\<rparr>"
    "cmd_frame ''/r1/diff_controller/cmd_vel_unstamped'' twist_turn
      = PublishMsg ''/r1/diff_controller/cmd_vel_unstamped''
             \<lparr>v3_X = 0, v3_Y = 0, v3_Z = 0\<rparr> \<lparr>v3_X = 0, v3_Y = 0, v3_Z = 2\<rparr>"
    by (simp_all add: cmd_frame_def cmd_finite_def zero_TwistData_def twist_forward_def
        twist_turn_def)
  have idle: "\<not> connected ((NewClient ''/r1'' ''10.0.0.1'' 9090)\<lparr>desiredTwist := twist_forward\<rparr>)"
    by (simp add: NewClient_def)
  note T = publishCmdVelTick_on_change [of cmd_link True "[?sub]" twist_forward twist_turn]
  note I = publishCmdVelTick_on_change
    [of "(NewClient ''/r1'' ''10.0.0.1'' 9090)\<lparr>desiredTwist := twist_forward\<rparr>" True]
  from T [THEN conjunct2, THEN conjunct2, THEN conjunct2, THEN conjunct2, THEN conjunct2,
      THEN conjunct2] pre
  have a: "conn (publishCmdVelTick True
        (SetDesiredCmdVel twist_forward (SetDesiredCmdVel twist_forward cmd_link)))
      = Some ([?sub] @ [cmd_frame (topicCmdVel cmd_link) twist_forward])"
    and b: "publishCmdVelTick True (publishCmdVelTick True
        (SetDesiredCmdVel twist_forward (SetDesiredCmdVel twist_forward cmd_link)))
      = publishCmdVelTick True
        (SetDesiredCmdVel twist_forward (SetDesiredCmdVel twist_forward cmd_link))"
    and c: "conn (publishCmdVelTick True (SetDesiredCmdVel twist_turn
        (publishCmdVelTick True
          (SetDesiredCmdVel twist_forward (SetDesiredCmdVel twist_forward cmd_link)))))
      = Some ([?sub] @ [cmd_frame (topicCmdVel cmd_link) twist_forward,
           cmd_frame (topicCmdVel cmd_link) twist_turn])"
    by blast+
  from I [THEN conjunct1] idle
  have d: "publishCmdVelTick True ((NewClient ''/r1'' ''10.0.0.1'' 9090)\<lparr>desiredTwist := twist_forward\<rparr>)
     = (NewClient ''/r1'' ''10.0.0.1'' 9090)\<lparr>desiredTwist := twist_forward\<rparr>"
    by blast
  from a b c d show ?thesis by (simp add: t fr)
qed

subsection \<open>Service calls and the pending-call table\<close>

lemma send_svcPending: "svcPending (fst (send data wr c)) = svcPending c"
  by (simp add: send_def split: option.splits)

lemma Connect_svcPending: "svcPending (fst (Connect ok c)) = svcPending c"
  by (simp add: Connect_def)

lemma disconnect_svcPending: "svcPending (disconnect c) = svcPending c"
  by (simp add: disconnect_def)

lemma inv_owner:
  "pending_inv w \<Longrightarrow> calls w ch = Some a \<Longrightarrow> svcPending (link w) cid = Some ch
    \<Longrightarrow> cid = call_id a"
  by (fastforce simp: pending_inv_def)

lemma inv_not_returned: "pending_inv w \<Longrightarrow> calls w ch = Some a \<Longrightarrow> returned w ch = None"
  by (force simp: pending_inv_def dom_def)

lemma exit_inv:
  assumes "pending_inv w" and "calls w ch = Some a"
  shows "pending_inv (CallService_exit ch a r w)"
proof -
  have k: "cid = call_id a" if "svcPending (link w) cid = Some ch" for cid
    using assms that by (fastforce simp: pending_inv_def)
  show ?thesis
    using assms k unfolding pending_inv_def CallService_exit_def
    by (auto split: if_splits)
qed

lemma step_inv:
  assumes "pending_inv w" and "step e w = Some w'"
  shows "pending_inv w'"
proof (cases e)
  case (Enter service args now_ms)
  have fresh: "svcPending (link w) cid \<noteq> Some (next_resp w)" for cid
    using assms(1) by (force simp: pending_inv_def dom_def)
  from Enter assms fresh show ?thesis
    unfolding pending_inv_def
    by (auto simp: CallService_enter_def Let_def less_Suc_eq split: if_splits)
next
  case (Send ch wr)
  from assms(2) Send obtain a where a: "calls w ch = Some a" and ns: "\<not> call_sent a"
    by (auto simp: CallService_send_def split: option.splits if_splits)
  obtain c' r where s: "send (call_frame (ns (link w) @ call_service a) (call_args a) (call_id a)) wr (link w) = (c', r)"
    by (cases "send (call_frame (ns (link w) @ call_service a) (call_args a) (call_id a)) wr (link w)")
  have p: "svcPending c' = svcPending (link w)"
    using send_svcPending [of "call_frame (ns (link w) @ call_service a) (call_args a) (call_id a)" wr "link w"] s by simp
  have i1: "pending_inv (w\<lparr>link := c'\<rparr>)"
    using assms(1) p by (simp add: pending_inv_def)
  show ?thesis
  proof (cases r)
    case (Inl e)
    with assms(2) Send a ns s have "w' = CallService_exit ch a (Inl e) (w\<lparr>link := c'\<rparr>)"
      by (simp add: CallService_send_def)
    with i1 a show ?thesis by (simp add: exit_inv)
  next
    case (Inr u)
    with assms(2) Send a ns s have "w' = w\<lparr>link := c', calls := (calls w)(ch \<mapsto> a\<lparr>call_sent := True\<rparr>)\<rparr>"
      by (simp add: CallService_send_def)
    with assms(1) p a inv_owner [OF assms(1) a] inv_not_returned [OF assms(1) a]
    show ?thesis
      unfolding pending_inv_def by (auto split: if_splits)
  qed
next
  case (Receive ch)
  from assms(2) Receive obtain a resp rest where a: "calls w ch = Some a" 
    and w': "w' = CallService_exit ch a (Inr resp) (w\<lparr>resp_chans := (resp_chans w)(ch := rest)\<rparr>)"
    by (auto simp: CallService_receive_def split: option.splits if_splits list.splits)
  have "pending_inv (w\<lparr>resp_chans := (resp_chans w)(ch := rest)\<rparr>)"
    using assms(1) by (simp add: pending_inv_def)
  with a show ?thesis unfolding w' by (simp add: exit_inv)
next
  case (TimerFires ch)
  from assms(2) TimerFires obtain a where a: "calls w ch = Some a" 
    and w': "w' = CallService_exit ch a (Inl (Timeout (call_service a))) w"
    by (auto simp: CallService_timeout_def split: option.splits if_splits)
  with assms(1) show ?thesis by (simp add: exit_inv)
next
  case (Response cid raw)
  with assms show ?thesis
    unfolding pending_inv_def
    by (auto simp: handleServiceResponse_def split: option.splits if_splits)
next
  case LinkUp
  with assms show ?thesis
    unfolding pending_inv_def by (auto simp: Connect_svcPending)
next
  case LinkDown
  with assms show ?thesis
    unfolding pending_inv_def by (auto simp: disconnect_svcPending)
qed

lemma run_inv: "pending_inv w \<Longrightarrow> run evs w = Some w' \<Longrightarrow> pending_inv w'"
proof (induction evs arbitrary: w)
  case Nil
  then show ?case by simp
next
  case (Cons e evs)
  then show ?case by (auto split: option.splits dest: step_inv)
qed

lemma NewWorld_inv: "pending_inv (NewWorld (NewClient nsp hst prt))"
  by (simp add: pending_inv_def NewWorld_def NewClient_def)

lemma digit_char_cases:
  "d < 10 \<Longrightarrow> d = 0 \<or> d = 1 \<or> d = 2 \<or> d = 3 \<or> d = 4 \<or> d = 5 \<or> d = 6 \<or> d = 7 \<or> d = 8 \<or> d = (9::nat)"
  by arith

lemma digit_char_neq:
  "d < 10 \<Longrightarrow> digit_char d \<noteq> CHR ''_'' \<and> digit_char d \<noteq> CHR ''-''"
  using digit_char_cases [of d] by (auto simp: digit_char_def)

lemma digit_char_inj: "d < 10 \<Longrightarrow> d' < 10 \<Longrightarrow> digit_char d = digit_char d' \<Longrightarrow> d = d'"
  using digit_char_cases [of d] digit_char_cases [of d'] by (auto simp: digit_char_def)

lemma udec_chars: "c \<in> set (udec n) \<Longrightarrow> c \<noteq> CHR ''_'' \<and> c \<noteq> CHR ''-''"
proof (induction n rule: udec.induct)
  case (1 n)
  show ?case
  proof (cases "n < 10")
    case True
    with "1.prems" show ?thesis
      by (subst (asm) udec.simps) (simp add: digit_char_neq)
  next
    case False
    with "1.prems" have "c \<in> set (udec (n div 10)) \<or> c = digit_char (n mod 10)"
      by (subst (asm) udec.simps) auto
    with False "1.IH" show ?thesis
      using digit_char_neq [of "n mod 10"] by auto
  qed
qed

lemma udec_inj: "udec n = udec m \<Longrightarrow> n = m"
proof (induction n arbitrary: m rule: udec.induct)
  case (1 n)
  show ?case
  proof (cases "n < 10")
    case True
    note n = True
    show ?thesis
    proof (cases "m < 10")
      case True
      with n "1.prems" show ?thesis
        by (subst (asm) udec.simps, subst (asm) (2) udec.simps) (simp add: digit_char_inj)
    next
      case False
      have "udec m = udec (m div 10) @ [digit_char (m mod 10)]"
        using False by (subst udec.simps) simp
      moreover have "udec n = [digit_char n]" using n by (subst udec.simps) simp
      ultimately show ?thesis using "1.prems" udec_nonempty [of "m div 10"] by simp
    qed
  next
    case False
    note n = False
    have un: "udec n = udec (n div 10) @ [digit_char (n mod 10)]"
      using n by (subst udec.simps) simp
    show ?thesis
    proof (cases "m < 10")
      case True
      then have "udec m = [digit_char m]" by (subst udec.simps) simp
      with un "1.prems" udec_nonempty [of "n div 10"] show ?thesis by simp
    next
      case False
      have um: "udec m = udec (m div 10) @ [digit_char (m mod 10)]"
        using False by (subst udec.simps) simp
      from un um "1.prems" have e: "udec (n div 10) = udec (m div 10)"
        and d: "digit_char (n mod 10) = digit_char (m mod 10)" by simp_all
      from "1.IH" [OF n e] have "n div 10 = m div 10" .
      moreover from d have "n mod 10 = m mod 10" by (intro digit_char_inj) simp_all
      ultimately show ?thesis by (metis div_mult_mod_eq)
    qed
  qed
qed

lemma fmt_d_chars: "CHR ''_'' \<notin> set (fmt_d i)"
  using udec_chars by (auto simp: fmt_d_def)

lemma udec_hd: "hd (udec n) \<noteq> CHR ''-''"
  using udec_chars [of "hd (udec n)" n] udec_nonempty [of n] by simp

lemma fmt_d_inj: "fmt_d i = fmt_d j \<Longrightarrow> i = j"
proof -
  assume h: "fmt_d i = fmt_d j"
  have neg: False if "fmt_d a = fmt_d b" "a < 0" "\<not> b < 0" for a b
  proof -
    from that have "CHR ''-'' # udec (nat (- a)) = udec (nat b)" by (simp add: fmt_d_def)
    then have "hd (udec (nat b)) = CHR ''-''" by (metis list.sel(1))
    with udec_hd show False by blast
  qed
  show ?thesis
  proof (cases "i < 0")
    case True
    note i = True
    show ?thesis
    proof (cases "j < 0")
      case True
      with i h have "nat (- i) = nat (- j)" by (simp add: fmt_d_def udec_inj)
      with i True show ?thesis by simp
    next
      case False
      with neg [OF h i] show ?thesis by simp
    qed
  next
    case False
    note i = False
    show ?thesis
    proof (cases "j < 0")
      case True
      with neg [OF h [symmetric] True] i show ?thesis by simp
    next
      case False
      with i h have "nat i = nat j" by (simp add: fmt_d_def udec_inj)
      with i False show ?thesis by simp
    qed
  qed
qed

lemma split_at_last:
  assumes "xs @ c # ys = xs' @ c # ys'" and "c \<notin> set ys" and "c \<notin> set ys'"
  shows "xs = xs' \<and> ys = ys'"
proof -
  have "rev ys @ c # rev xs = rev ys' @ c # rev xs'"
    using arg_cong [OF assms(1), of rev] by simp
  moreover have "takeWhile (\<lambda>x. x \<noteq> c) (rev ys @ c # rev xs) = rev ys"
    using assms(2) by (auto simp: takeWhile_tail)
  moreover have "takeWhile (\<lambda>x. x \<noteq> c) (rev ys' @ c # rev xs') = rev ys'"
    using assms(3) by (auto simp: takeWhile_tail)
  ultimately have "rev ys = rev ys'" by simp
  then have y: "ys = ys'" by simp
  with assms(1) show ?thesis by simp
qed

lemma svc_id_inj: "svc_id s n = svc_id s' n' \<longleftrightarrow> s = s' \<and> n = n'"
proof
  assume "svc_id s n = svc_id s' n'"
  then have "s @ CHR ''_'' # fmt_d n = s' @ CHR ''_'' # fmt_d n'"
    by (simp add: svc_id_def)
  from split_at_last [OF this fmt_d_chars fmt_d_chars]
  show "s = s' \<and> n = n'" by (auto dest: fmt_d_inj)
next
  assume "s = s' \<and> n = n'"
  then show "svc_id s n = svc_id s' n'" by simp
qed

lemma exit_fields:
  "returned (CallService_exit ch a r w) ch = Some r"
  "calls (CallService_exit ch a r w) ch = None"
  "svcPending (link (CallService_exit ch a r w)) = (svcPending (link w))(call_id a := None)"
  by (simp_all add: CallService_exit_def)

lemmas world_defs = NewWorld_def NewClient_def CallService_enter_def CallService_send_def
  CallService_receive_def CallService_timeout_def CallService_exit_def
  handleServiceResponse_def Connect_def disconnect_def send_def svc_id_def fmt_d_def
  udec.simps digit_char_def Let_def returned_of_def call_frame_def

text \<open>
  Claim C1, as the claim states it, fails: a call on a disconnected link receives no
  response and returns the not-connected error of \<^verbatim>\<open>send\<close> at once, and a call whose socket
  write fails returns the write error; neither returns a timeout error.
\<close>

theorem CallService_unsent_counterexample:
  "returned_of 0 (run [Enter ''/which_maps'' (Some ''{}'') 1000, Send 0 True]
      (NewWorld (NewClient ''/r1'' ''10.0.0.1'' 9090))) = Some (Inl NotConnected)
   \<and> returned_of 0 (run [LinkUp, Enter ''/which_maps'' (Some ''{}'') 1000, Send 0 False]
      (NewWorld (NewClient ''/r1'' ''10.0.0.1'' 9090))) = Some (Inl WriteError)"
  by (simp add: world_defs)

text \<open>
  Claim C1, amended. After any run of any number of concurrent calls, responses, timeouts
  and link changes: every entry of the pending-call table belongs to a call still in
  flight, and a call that has returned has no entry. A call that has not yet run \<^verbatim>\<open>send\<close>
  can always run it: on a link that is down or has no socket it returns the not-connected
  error at once, on a failed socket write it returns the write error at once, and in both
  cases it leaves no entry for itself; on a successful write its \<^verbatim>\<open>call_service\<close> frame is
  the last frame on the socket, the call waits, and the table is unchanged. A call whose
  frame was sent and whose channel holds no response cannot take the response branch, and
  when its timer fires it returns the timeout error and leaves no entry for itself; when
  its channel holds a response and it takes the response branch, it returns that response
  and leaves no entry for itself.
\<close>

theorem CallService_timeout_no_leak:
  assumes "run evs (NewWorld (NewClient nsp hst prt)) = Some w"
  shows "(\<forall>cid ch. svcPending (link w) cid = Some ch \<longrightarrow>
            (\<exists>a. calls w ch = Some a \<and> call_id a = cid))
    \<and> (\<forall>ch r. returned w ch = Some r \<longrightarrow>
          calls w ch = None \<and> (\<forall>cid. svcPending (link w) cid \<noteq> Some ch))
    \<and> (\<forall>ch a. calls w ch = Some a \<and> call_sent a \<and> resp_chans w ch = [] \<longrightarrow>
          step (Receive ch) w = None
          \<and> (\<exists>w'. step (TimerFires ch) w = Some w'
                \<and> returned w' ch = Some (Inl (Timeout (call_service a)))
                \<and> calls w' ch = None
                \<and> svcPending (link w') (call_id a) = None
                \<and> (\<forall>cid. svcPending (link w') cid \<noteq> Some ch)))
    \<and> (\<forall>ch a wr. calls w ch = Some a \<and> \<not> call_sent a \<longrightarrow>
          (\<exists>w'. step (Send ch wr) w = Some w'
            \<and> (if connected (link w) \<and> conn (link w) \<noteq> None \<and> wr
               then calls w' ch = Some (a\<lparr>call_sent := True\<rparr>)
                 \<and> returned w' ch = None
                 \<and> svcPending (link w') = svcPending (link w)
                 \<and> conn (link w') = Some (the (conn (link w))
                      @ [call_frame (ns (link w) @ call_service a) (call_args a)
                           (call_id a)])
               else returned w' ch =
                   Some (Inl (if connected (link w) \<and> conn (link w) \<noteq> None then WriteError
                              else NotConnected))
                 \<and> calls w' ch = None
                 \<and> svcPending (link w') (call_id a) = None
                 \<and> (\<forall>cid. svcPending (link w') cid \<noteq> Some ch)
                 \<and> conn (link w') = conn (link w))))
    \<and> (\<forall>ch a resp rest. calls w ch = Some a \<and> call_sent a \<and> resp_chans w ch = resp # rest \<longrightarrow>
          (\<exists>w'. step (Receive ch) w = Some w'
                \<and> returned w' ch = Some (Inr resp)
                \<and> calls w' ch = None
                \<and> svcPending (link w') (call_id a) = None
                \<and> (\<forall>cid. svcPending (link w') cid \<noteq> Some ch)))"
proof -
  have inv: "pending_inv w"
    by (rule run_inv [OF NewWorld_inv assms])
  have a: "\<exists>a. calls w ch = Some a \<and> call_id a = cid" if "svcPending (link w) cid = Some ch"
    for cid ch
    using inv that by (simp add: pending_inv_def)
  have b: "calls w ch = None \<and> (\<forall>cid. svcPending (link w) cid \<noteq> Some ch)"
    if "returned w ch = Some r" for ch r
  proof -
    from inv that have n: "calls w ch = None" by (force simp: pending_inv_def dom_def)
    with a show ?thesis by fastforce
  qed
  have own: "cid = call_id a" if "calls w ch = Some a" "svcPending (link w) cid = Some ch"
    for cid ch a
    using inv_owner [OF inv _ that(2)] that(1) by simp
  have gone: "\<forall>cid. svcPending (link (CallService_exit ch a r w0)) cid \<noteq> Some ch"
    if "calls w ch = Some a" "svcPending (link w0) = svcPending (link w)" for ch a r w0
    using own [OF that(1)] that(2) by (auto simp: exit_fields)
  have c: "step (Receive ch) w = None
          \<and> (\<exists>w'. step (TimerFires ch) w = Some w'
                \<and> returned w' ch = Some (Inl (Timeout (call_service a)))
                \<and> calls w' ch = None
                \<and> svcPending (link w') (call_id a) = None
                \<and> (\<forall>cid. svcPending (link w') cid \<noteq> Some ch))"
    if h: "calls w ch = Some a \<and> call_sent a \<and> resp_chans w ch = []" for ch a
  proof -
    let ?w' = "CallService_exit ch a (Inl (Timeout (call_service a))) w"
    have s: "step (TimerFires ch) w = Some ?w'"
      using h by (simp add: CallService_timeout_def)
    have r: "step (Receive ch) w = None"
      using h by (simp add: CallService_receive_def)
    have none: "\<forall>cid. svcPending (link ?w') cid \<noteq> Some ch"
      using h by (intro gone) simp_all
    from s r none show ?thesis by (simp add: exit_fields)
  qed
  have d: "\<exists>w'. step (Send ch wr) w = Some w'
            \<and> (if connected (link w) \<and> conn (link w) \<noteq> None \<and> wr
               then calls w' ch = Some (a\<lparr>call_sent := True\<rparr>)
                 \<and> returned w' ch = None
                 \<and> svcPending (link w') = svcPending (link w)
                 \<and> conn (link w') = Some (the (conn (link w))
                      @ [call_frame (ns (link w) @ call_service a) (call_args a)
                           (call_id a)])
               else returned w' ch =
                   Some (Inl (if connected (link w) \<and> conn (link w) \<noteq> None then WriteError
                              else NotConnected))
                 \<and> calls w' ch = None
                 \<and> svcPending (link w') (call_id a) = None
                 \<and> (\<forall>cid. svcPending (link w') cid \<noteq> Some ch)
                 \<and> conn (link w') = conn (link w))"
    if h: "calls w ch = Some a \<and> \<not> call_sent a" for ch a wr
  proof -
    let ?f = "call_frame (ns (link w) @ call_service a) (call_args a) (call_id a)"
    from h have nr: "returned w ch = None"
      using inv_not_returned [OF inv] by blast
    show ?thesis
    proof (cases "connected (link w) \<and> conn (link w) \<noteq> None \<and> wr")
      case True
      then obtain fs where fs: "conn (link w) = Some fs" by blast
      have s: "step (Send ch wr) w
          = Some (w\<lparr>link := (link w)\<lparr>conn := Some (fs @ [?f])\<rparr>,
                    calls := (calls w)(ch \<mapsto> a\<lparr>call_sent := True\<rparr>)\<rparr>)"
        using h True fs by (simp add: CallService_send_def send_def)
      show ?thesis
        unfolding s using True fs nr by simp
    next
      case False
      let ?e = "if connected (link w) \<and> conn (link w) \<noteq> None then WriteError else NotConnected"
      have s: "step (Send ch wr) w = Some (CallService_exit ch a (Inl ?e) w)"
        using h False by (auto simp: CallService_send_def send_def split: option.splits)
      have none: "\<forall>cid. svcPending (link (CallService_exit ch a (Inl ?e) w)) cid \<noteq> Some ch"
        using h by (intro gone) simp_all
      have cn: "conn (link (CallService_exit ch a (Inl ?e) w)) = conn (link w)"
        by (simp add: CallService_exit_def)
      show ?thesis
        unfolding s using False none cn by (simp add: exit_fields)
    qed
  qed
  have e: "\<exists>w'. step (Receive ch) w = Some w'
                \<and> returned w' ch = Some (Inr resp)
                \<and> calls w' ch = None
                \<and> svcPending (link w') (call_id a) = None
                \<and> (\<forall>cid. svcPending (link w') cid \<noteq> Some ch)"
    if h: "calls w ch = Some a \<and> call_sent a \<and> resp_chans w ch = resp # rest"
    for ch a resp rest
  proof -
    let ?w0 = "w\<lparr>resp_chans := (resp_chans w)(ch := rest)\<rparr>"
    let ?w' = "CallService_exit ch a (Inr resp) ?w0"
    have s: "step (Receive ch) w = Some ?w'"
      using h by (simp add: CallService_receive_def)
    have none: "\<forall>cid. svcPending (link ?w') cid \<noteq> Some ch"
      using h by (intro gone) simp_all
    from s none show ?thesis by (simp add: exit_fields)
  qed
  show ?thesis
  proof (intro conjI allI impI)
    fix cid ch assume "svcPending (link w) cid = Some ch"
    then show "\<exists>a. calls w ch = Some a \<and> call_id a = cid" by (rule a)
  next
    fix ch r assume "returned w ch = Some r"
    from b [OF this] show "calls w ch = None" by simp
  next
    fix ch r cid assume "returned w ch = Some r"
    from b [OF this] show "svcPending (link w) cid \<noteq> Some ch" by simp
  next
    fix ch a assume "calls w ch = Some a \<and> call_sent a \<and> resp_chans w ch = []"
    from c [OF this] show "step (Receive ch) w = None" by simp
  next
    fix ch a assume "calls w ch = Some a \<and> call_sent a \<and> resp_chans w ch = []"
    from c [OF this] show "\<exists>w'. step (TimerFires ch) w = Some w'
                \<and> returned w' ch = Some (Inl (Timeout (call_service a)))
                \<and> calls w' ch = None
                \<and> svcPending (link w') (call_id a) = None
                \<and> (\<forall>cid. svcPending (link w') cid \<noteq> Some ch)" by simp
  next
    fix ch a wr assume "calls w ch = Some a \<and> \<not> call_sent a"
    from d [OF this] show "\<exists>w'. step (Send ch wr) w = Some w'
            \<and> (if connected (link w) \<and> conn (link w) \<noteq> None \<and> wr
               then calls w' ch = Some (a\<lparr>call_sent := True\<rparr>)
                 \<and> returned w' ch = None
                 \<and> svcPending (link w') = svcPending (link w)
                 \<and> conn (link w') = Some (the (conn (link w))
                      @ [call_frame (ns (link w) @ call_service a) (call_args a)
                           (call_id a)])
               else returned w' ch =
                   Some (Inl (if connected (link w) \<and> conn (link w) \<noteq> None then WriteError
                              else NotConnected))
                 \<and> calls w' ch = None
                 \<and> svcPending (link w') (call_id a) = None
                 \<and> (\<forall>cid. svcPending (link w') cid \<noteq> Some ch)
                 \<and> conn (link w') = conn (link w))" .
  next
    fix ch a resp rest
    assume "calls w ch = Some a \<and> call_sent a \<and> resp_chans w ch = resp # rest"
    from e [OF this] show "\<exists>w'. step (Receive ch) w = Some w'
                \<and> returned w' ch = Some (Inr resp)
                \<and> calls w' ch = None
                \<and> svcPending (link w') (call_id a) = None
                \<and> (\<forall>cid. svcPending (link w') cid \<noteq> Some ch)" .
  qed
qed

text \<open>
  The theorem at two runs: on a connected link two calls are sent and never answered, and
  each returns the timeout error when its timer fires, its own entry leaving the table
  with it; on a link that is down a call returns the not-connected error from its send
  step.
\<close>

theorem CallService_timeout_no_leak_witness:
  "(\<exists>w. run two_pending (NewWorld (NewClient ''/r1'' ''10.0.0.1'' 9090)) = Some w
      \<and> calls w 0 = Some \<lparr>call_id = ''svc_/which_maps_1000'', call_service = ''/which_maps'',
            call_args = Some ''{}'', call_sent = True\<rparr>
      \<and> svcPending (link w) ''svc_/which_maps_1000'' = Some 0
      \<and> (\<exists>w'. step (TimerFires 0) w = Some w'
            \<and> returned w' 0 = Some (Inl (Timeout ''/which_maps''))
            \<and> svcPending (link w') ''svc_/which_maps_1000'' = None
            \<and> (\<forall>cid. svcPending (link w') cid \<noteq> Some 0)))
   \<and> (\<exists>w. run [Enter ''/which_maps'' (Some ''{}'') 1000] (NewWorld (NewClient ''/r1'' ''10.0.0.1'' 9090))
          = Some w
      \<and> svcPending (link w) ''svc_/which_maps_1000'' = Some 0
      \<and> (\<exists>w'. step (Send 0 True) w = Some w'
            \<and> returned w' 0 = Some (Inl NotConnected)
            \<and> svcPending (link w') ''svc_/which_maps_1000'' = None))"
proof -
  let ?W = "NewWorld (NewClient ''/r1'' ''10.0.0.1'' 9090)"
  let ?a = "\<lparr>call_id = ''svc_/which_maps_1000'', call_service = ''/which_maps'',
            call_args = Some ''{}'', call_sent = True\<rparr>"
  let ?b = "\<lparr>call_id = ''svc_/which_maps_1000'', call_service = ''/which_maps'',
            call_args = Some ''{}'', call_sent = False\<rparr>"
  define w1 where "w1 = the (run two_pending ?W)"
  define w2 where "w2 = the (run [Enter ''/which_maps'' (Some ''{}'') 1000] ?W)"
  have r1: "run two_pending ?W = Some w1"
    by (simp add: w1_def two_pending_def world_defs)
  have r2: "run [Enter ''/which_maps'' (Some ''{}'') 1000] ?W = Some w2"
    by (simp add: w2_def world_defs)
  have f1: "calls w1 0 = Some ?a" "resp_chans w1 0 = []"
      "svcPending (link w1) ''svc_/which_maps_1000'' = Some 0"
    by (simp_all add: w1_def two_pending_def world_defs)
  have f2: "calls w2 0 = Some ?b" "\<not> connected (link w2)"
      "svcPending (link w2) ''svc_/which_maps_1000'' = Some 0"
    by (simp_all add: w2_def world_defs)
  note t1 = CallService_timeout_no_leak [OF r1, THEN conjunct2, THEN conjunct2,
      THEN conjunct1, rule_format, of 0 ?a]
  note t2 = CallService_timeout_no_leak [OF r2, THEN conjunct2, THEN conjunct2,
      THEN conjunct2, THEN conjunct1, rule_format, of 0 ?b True]
  from t1 f1 obtain w' where w': "step (TimerFires 0) w1 = Some w'"
      "returned w' 0 = Some (Inl (Timeout ''/which_maps''))"
      "svcPending (link w') ''svc_/which_maps_1000'' = None"
      "\<forall>cid. svcPending (link w') cid \<noteq> Some 0"
    by auto
  from t2 f2 obtain w'' where w'': "step (Send 0 True) w2 = Some w''"
      "returned w'' 0 = Some (Inl NotConnected)"
      "svcPending (link w'') ''svc_/which_maps_1000'' = None"
    by auto
  from r1 f1 w' have A: "\<exists>w. run two_pending ?W = Some w
      \<and> calls w 0 = Some ?a
      \<and> svcPending (link w) ''svc_/which_maps_1000'' = Some 0
      \<and> (\<exists>w'. step (TimerFires 0) w = Some w'
            \<and> returned w' 0 = Some (Inl (Timeout ''/which_maps''))
            \<and> svcPending (link w') ''svc_/which_maps_1000'' = None
            \<and> (\<forall>cid. svcPending (link w') cid \<noteq> Some 0))"
    by blast
  from r2 f2 w'' have B: "\<exists>w. run [Enter ''/which_maps'' (Some ''{}'') 1000] ?W = Some w
      \<and> svcPending (link w) ''svc_/which_maps_1000'' = Some 0
      \<and> (\<exists>w'. step (Send 0 True) w = Some w'
            \<and> returned w' 0 = Some (Inl NotConnected)
            \<and> svcPending (link w') ''svc_/which_maps_1000'' = None)"
    by blast
  from A B show ?thesis by (rule conjI)
qed

text \<open>
  Claim C3. The claim asks for a correlation id that no other call in flight has. The code
  builds the id from the service name and the millisecond clock reading alone, and two ids
  coincide exactly when both coincide (\<open>svc_id_inj\<close>). So two calls of one service entered
  in the same millisecond are in flight under one id; the second registration overwrites
  the first call's slot, and the table holds the second call's channel only. When both
  frames are sent and the robot answers both, the response to the first request is
  delivered to the second caller, the second response finds no entry and is discarded, and
  the first caller, who was answered, returns the timeout error.
\<close>

theorem CallService_same_id:
  "inflight_id 0 (run (take 3 same_millisecond) (NewWorld (NewClient ''/r1'' ''10.0.0.1'' 9090)))
      = Some ''svc_/which_maps_1000''
   \<and> inflight_id 1 (run (take 3 same_millisecond) (NewWorld (NewClient ''/r1'' ''10.0.0.1'' 9090)))
      = Some ''svc_/which_maps_1000''
   \<and> pending_of ''svc_/which_maps_1000''
        (run (take 3 same_millisecond) (NewWorld (NewClient ''/r1'' ''10.0.0.1'' 9090))) = Some 1
   \<and> returned_of 1 (run same_millisecond (NewWorld (NewClient ''/r1'' ''10.0.0.1'' 9090)))
      = Some (Inr ''first'')
   \<and> returned_of 0 (run same_millisecond (NewWorld (NewClient ''/r1'' ''10.0.0.1'' 9090)))
      = Some (Inl (Timeout ''/which_maps''))"
  by (simp add: same_millisecond_def world_defs inflight_id_def pending_of_def)

end
